theory Spec2Isabelle
  imports Complex_Main
begin

section \<open>The fantasy-football optimiser: data model\<close>

text \<open>
  The development embeds \<^verbatim>\<open>FPL Team Selector/test3.py\<close>. Python floats are
  modelled by exact rationals: the arithmetic is the one the source writes, without the
  binary rounding of IEEE doubles. The numeric fields the source passes through
  \<^verbatim>\<open>float(...)\<close> (form, points per game, ICT index) are taken as the number they parse
  to. The player fields that only the report reads (\<^verbatim>\<open>fixtures\<close>, \<^verbatim>\<open>chance\<close>,
  \<^verbatim>\<open>form_val\<close>, \<^verbatim>\<open>ppg_val\<close>, \<^verbatim>\<open>ict_val\<close>) are left out.
\<close>

datatype py_error =
    KeyError
  | ZeroDivisionError
  | ValueError string
  | OSError
  | UnicodeDecodeError

text \<open>The JSON value of \<^verbatim>\<open>chance_of_playing_next_round\<close>: the key may be missing,
  the value may be \<^verbatim>\<open>null\<close>, or it is a number.\<close>

datatype chance_val = ChanceMissing | ChanceNull | ChanceNum rat

record player =
  pid :: int
  web_name :: string
  element_type :: int
  team :: int
  now_cost :: int
  form :: rat
  points_per_game :: rat
  ict_index :: rat
  chance_of_playing_next_round :: chance_val
  expected_points :: "rat option"

record club =
  club_id :: int
  short_name :: string
  strength :: int

record fixture =
  team_h :: int
  team_a :: int
  team_h_difficulty :: int
  team_a_difficulty :: int

record team_fixture =
  opp_id :: int
  diff :: int
  home :: bool

section \<open>Grouping fixtures by club\<close>

text \<open>\<^verbatim>\<open>team_fixtures = {t['id']: [] for t in teams}\<close>\<close>

fun empty_fixture_lists :: "club list \<Rightarrow> (int \<rightharpoonup> team_fixture list)" where
  "empty_fixture_lists [] = Map.empty"
| "empty_fixture_lists (t # ts) = (empty_fixture_lists ts)(club_id t \<mapsto> [])"

text \<open>\<^verbatim>\<open>team_fixtures[k].append(e)\<close>: a missing key raises \<^verbatim>\<open>KeyError\<close>.\<close>

definition append_fixture ::
  "(int \<rightharpoonup> team_fixture list) \<Rightarrow> int \<Rightarrow> team_fixture \<Rightarrow> py_error + (int \<rightharpoonup> team_fixture list)" where
  "append_fixture tf k e = (case tf k of None \<Rightarrow> Inl KeyError | Some es \<Rightarrow> Inr (tf(k \<mapsto> es @ [e])))"

fun group_fixtures ::
  "(int \<rightharpoonup> team_fixture list) \<Rightarrow> fixture list \<Rightarrow> py_error + (int \<rightharpoonup> team_fixture list)" where
  "group_fixtures tf [] = Inr tf"
| "group_fixtures tf (f # fs) =
     (case append_fixture tf (team_h f)
             \<lparr>opp_id = team_a f, diff = team_h_difficulty f, home = True\<rparr> of
        Inl e \<Rightarrow> Inl e
      | Inr tf1 \<Rightarrow>
          (case append_fixture tf1 (team_a f)
                  \<lparr>opp_id = team_h f, diff = team_a_difficulty f, home = False\<rparr> of
             Inl e \<Rightarrow> Inl e
           | Inr tf2 \<Rightarrow> group_fixtures tf2 fs))"

definition calculate_team_fixtures ::
  "club list \<Rightarrow> fixture list \<Rightarrow> py_error + (int \<rightharpoonup> team_fixture list)" where
  "calculate_team_fixtures teams fixtures = group_fixtures (empty_fixture_lists teams) fixtures"

section \<open>The expected-points model\<close>

text \<open>\<^verbatim>\<open>round(x, 2)\<close> on an exact value: to the nearest hundredth, a tie to the even
  hundredth.\<close>

definition py_round2 :: "rat \<Rightarrow> rat" where
  "py_round2 x =
     (let y = x * 100; f = \<lfloor>y\<rfloor>; r = y - of_int f
      in of_int (if r < 1 / 2 then f else if 1 / 2 < r then f + 1
                 else if even f then f else f + 1) / 100)"

text \<open>\<^verbatim>\<open>avg_strength = sum(t['strength'] for t in teams) / len(teams)\<close>\<close>

definition avg_strength :: "club list \<Rightarrow> py_error + rat" where
  "avg_strength teams =
     (if teams = [] then Inl ZeroDivisionError
      else Inr (of_int (sum_list (map strength teams)) / of_nat (length teams)))"

text \<open>\<^verbatim>\<open>team_strength = {t['id']: t['strength'] for t in teams}\<close>: a later club with the
  same id overwrites an earlier one, so a lookup finds the last entry for its key.\<close>

definition team_strength :: "club list \<Rightarrow> (int \<rightharpoonup> int)" where
  "team_strength teams = map_of (rev (map (\<lambda>t. (club_id t, strength t)) teams))"

text \<open>The \<^verbatim>\<open>try\<close> block of the source: a number is divided by 100, \<^verbatim>\<open>float(None)\<close>
  raises \<^verbatim>\<open>TypeError\<close> and the handler sets 1.0; a missing key was replaced by 100 by
  \<^verbatim>\<open>.get\<close>.\<close>

fun chance_factor :: "chance_val \<Rightarrow> rat" where
  "chance_factor ChanceMissing = 100 / 100"
| "chance_factor ChanceNull = 1"
| "chance_factor (ChanceNum c) = c / 100"

text \<open>\<^verbatim>\<open>chance == 0\<close>\<close>

fun chance_is_zero :: "chance_val \<Rightarrow> bool" where
  "chance_is_zero (ChanceNum c) = (c = 0)"
| "chance_is_zero _ = False"

definition base_score :: "player \<Rightarrow> rat" where
  "base_score p = form p * (6 / 10) + points_per_game p * (4 / 10)"

definition ict_boost :: "player \<Rightarrow> rat" where
  "ict_boost p = ict_index p / 100 * (2 / 10)"

text \<open>One pass of the loop over \<^verbatim>\<open>fixes\<close>; dividing by an opponent strength of 0 raises.\<close>

definition fix_exp ::
  "rat \<Rightarrow> (int \<rightharpoonup> int) \<Rightarrow> player \<Rightarrow> team_fixture \<Rightarrow> py_error + rat" where
  "fix_exp avg ts p fx =
     (let opp_strength = (case ts (opp_id fx) of None \<Rightarrow> avg | Some s \<Rightarrow> of_int s)
      in if opp_strength = 0 then Inl ZeroDivisionError
         else
           (let strength_factor = avg / opp_strength;
                diff_factor = of_int (6 - diff fx) / 5;
                home_bonus = (if home fx then 12 / 10 else 9 / 10)
            in Inr (base_score p * diff_factor * home_bonus * strength_factor * (1 + ict_boost p))))"

fun sum_fixes ::
  "rat \<Rightarrow> (int \<rightharpoonup> int) \<Rightarrow> player \<Rightarrow> rat \<Rightarrow> team_fixture list \<Rightarrow> py_error + rat" where
  "sum_fixes avg ts p exp_acc [] = Inr exp_acc"
| "sum_fixes avg ts p exp_acc (fx # fxs) =
     (case fix_exp avg ts p fx of
        Inl e \<Rightarrow> Inl e
      | Inr v \<Rightarrow> sum_fixes avg ts p (exp_acc + v) fxs)"

text \<open>The body of the loop over \<^verbatim>\<open>players\<close>: \<^verbatim>\<open>None\<close> is a \<^verbatim>\<open>continue\<close>, otherwise the
  rounded estimate.\<close>

definition player_exp ::
  "rat \<Rightarrow> (int \<rightharpoonup> int) \<Rightarrow> (int \<rightharpoonup> team_fixture list) \<Rightarrow> player \<Rightarrow> py_error + rat option" where
  "player_exp avg ts team_fixtures p =
     (let fixes = (case team_fixtures (team p) of None \<Rightarrow> [] | Some fs \<Rightarrow> fs)
      in if fixes = [] then Inr None
         else if chance_is_zero (chance_of_playing_next_round p) then Inr None
         else (case sum_fixes avg ts p 0 fixes of
                 Inl e \<Rightarrow> Inl e
               | Inr exp_sum \<Rightarrow>
                   Inr (Some (py_round2 (exp_sum * chance_factor (chance_of_playing_next_round p))))))"

text \<open>The loop threads the dictionary \<^verbatim>\<open>expected_points\<close> and the player records, which
  the source updates in place; the updated list is returned beside the dictionary.\<close>

fun exp_loop ::
  "rat \<Rightarrow> (int \<rightharpoonup> int) \<Rightarrow> (int \<rightharpoonup> team_fixture list) \<Rightarrow> (int \<rightharpoonup> rat) \<Rightarrow> player list
    \<Rightarrow> py_error + ((int \<rightharpoonup> rat) \<times> player list)" where
  "exp_loop avg ts tf ep [] = Inr (ep, [])"
| "exp_loop avg ts tf ep (p # ps) =
     (case player_exp avg ts tf p of
        Inl e \<Rightarrow> Inl e
      | Inr None \<Rightarrow>
          (case exp_loop avg ts tf ep ps of
             Inl e \<Rightarrow> Inl e
           | Inr (ep', ps') \<Rightarrow> Inr (ep', p # ps'))
      | Inr (Some v) \<Rightarrow>
          (case exp_loop avg ts tf (ep(pid p \<mapsto> v)) ps of
             Inl e \<Rightarrow> Inl e
           | Inr (ep', ps') \<Rightarrow> Inr (ep', p\<lparr>expected_points := Some v\<rparr> # ps')))"

definition calculate_expected_points ::
  "player list \<Rightarrow> club list \<Rightarrow> (int \<rightharpoonup> team_fixture list)
    \<Rightarrow> py_error + ((int \<rightharpoonup> rat) \<times> player list)" where
  "calculate_expected_points players teams team_fixtures =
     (case avg_strength teams of
        Inl e \<Rightarrow> Inl e
      | Inr avg \<Rightarrow> exp_loop avg (team_strength teams) team_fixtures Map.empty players)"

section \<open>The solver interface\<close>

text \<open>
  The linear programs are handed to an external solver. The model keeps what the source
  submits: variables with a category, a linear objective and linear constraints. The
  solver itself is a parameter of the selectors; what it owes its caller (an assignment
  that satisfies what was submitted, and that no other such assignment beats) is stated
  by \<open>feasible\<close> and \<open>optimal\<close> and appears as a hypothesis where a property needs it.
\<close>

datatype var = Keep int | Buy int | Select int | Select2 int | ExtraTransfers

datatype category = Binary | IntegerLow0

datatype lexpr =
    LVar var
  | LConst rat
  | LScale rat lexpr
  | LAdd lexpr lexpr
  | LSub lexpr lexpr

datatype constr = LE lexpr lexpr | EQ lexpr lexpr

record lp_problem =
  objective :: lexpr
  constraints :: "constr list"
  variables :: "(var \<times> category) list"

datatype lp_status = NotSolved | Optimal | Infeasible | Unbounded | Undefined

type_synonym assignment = "var \<Rightarrow> int"

type_synonym solver = "lp_problem \<Rightarrow> lp_status \<times> assignment"

fun lp_eval :: "assignment \<Rightarrow> lexpr \<Rightarrow> rat" where
  "lp_eval a (LVar v) = of_int (a v)"
| "lp_eval a (LConst c) = c"
| "lp_eval a (LScale c e) = c * lp_eval a e"
| "lp_eval a (LAdd e1 e2) = lp_eval a e1 + lp_eval a e2"
| "lp_eval a (LSub e1 e2) = lp_eval a e1 - lp_eval a e2"

definition lpSum :: "lexpr list \<Rightarrow> lexpr" where
  "lpSum es = foldr LAdd es (LConst 0)"

fun holds :: "assignment \<Rightarrow> constr \<Rightarrow> bool" where
  "holds a (LE e1 e2) = (lp_eval a e1 \<le> lp_eval a e2)"
| "holds a (EQ e1 e2) = (lp_eval a e1 = lp_eval a e2)"

fun in_category :: "assignment \<Rightarrow> var \<times> category \<Rightarrow> bool" where
  "in_category a (v, Binary) = (0 \<le> a v \<and> a v \<le> 1)"
| "in_category a (v, IntegerLow0) = (0 \<le> a v)"

definition feasible :: "lp_problem \<Rightarrow> assignment \<Rightarrow> bool" where
  "feasible prob a =
     (list_all (holds a) (constraints prob) \<and> list_all (in_category a) (variables prob))"

definition optimal :: "lp_problem \<Rightarrow> assignment \<Rightarrow> bool" where
  "optimal prob a =
     (feasible prob a \<and>
      (\<forall>a'. feasible prob a' \<longrightarrow> lp_eval a' (objective prob) \<le> lp_eval a (objective prob)))"

section \<open>The squad selector\<close>

datatype chip = Wildcard | FreeHit | BenchBoost | TripleCaptain

text \<open>The keys of a dictionary built from a sequence of ids: each id once, in the order of
  first appearance.\<close>

fun dict_keys :: "int list \<Rightarrow> int list" where
  "dict_keys [] = []"
| "dict_keys (k # ks) = k # filter (\<lambda>j. j \<noteq> k) (dict_keys ks)"

text \<open>\<^verbatim>\<open>[x[p['id']] * expected_points[p['id']] for p in ps]\<close>: a missing id raises.\<close>

fun weighted :: "(int \<Rightarrow> var) \<Rightarrow> (int \<rightharpoonup> rat) \<Rightarrow> player list \<Rightarrow> py_error + lexpr list" where
  "weighted x ep [] = Inr []"
| "weighted x ep (p # ps) =
     (case ep (pid p) of
        None \<Rightarrow> Inl KeyError
      | Some v \<Rightarrow>
          (case weighted x ep ps of
             Inl e \<Rightarrow> Inl e
           | Inr ts \<Rightarrow> Inr (LScale v (LVar (x (pid p))) # ts)))"

text \<open>\<^verbatim>\<open>sum(p['expected_points'] for p in ps)\<close>: a player without the key raises.\<close>

fun sum_ep :: "player list \<Rightarrow> py_error + rat" where
  "sum_ep [] = Inr 0"
| "sum_ep (p # ps) =
     (case expected_points p of
        None \<Rightarrow> Inl KeyError
      | Some v \<Rightarrow> (case sum_ep ps of Inl e \<Rightarrow> Inl e | Inr s \<Rightarrow> Inr (v + s)))"

definition avail_players :: "(int \<rightharpoonup> rat) \<Rightarrow> player list \<Rightarrow> player list" where
  "avail_players ep players = filter (\<lambda>p. ep (pid p) \<noteq> None) players"

text \<open>An entry of the loaded snapshot is \<open>Some i\<close> when it is a dictionary with the id
  \<open>i\<close>, and \<open>None\<close> when it has another format (skipped with a warning).\<close>

fun current_squad_players :: "player list \<Rightarrow> int option list \<Rightarrow> player list" where
  "current_squad_players avail [] = []"
| "current_squad_players avail (None # es) = current_squad_players avail es"
| "current_squad_players avail (Some i # es) =
     (case filter (\<lambda>p. pid p = i) avail of
        [] \<Rightarrow> current_squad_players avail es
      | m # _ \<Rightarrow> m # current_squad_players avail es)"

definition transfer_mode :: "player list \<Rightarrow> chip option \<Rightarrow> bool" where
  "transfer_mode csp chip = (csp \<noteq> [] \<and> chip \<noteq> Some Wildcard \<and> chip \<noteq> Some FreeHit)"

definition cost :: "player \<Rightarrow> rat" where
  "cost p = of_int (now_cost p) / 10"

definition pos_counts :: "(int \<times> int) list" where
  "pos_counts = [(1, 2), (2, 5), (3, 5), (4, 3)]"

text \<open>\<^verbatim>\<open>range(1, 21)\<close>\<close>

definition team_ids :: "int list" where
  "team_ids = [1..20]"

definition not_kept :: "player list \<Rightarrow> lexpr list" where
  "not_kept csp = map (\<lambda>p. LSub (LConst 1) (LVar (Keep (pid p)))) csp"

definition transfer_constraints :: "player list \<Rightarrow> player list \<Rightarrow> int \<Rightarrow> constr list" where
  "transfer_constraints avail csp free_transfers =
     (let others = filter (\<lambda>p. p \<notin> set csp) avail;
          keep_values = map (\<lambda>i. LVar (Keep i)) (dict_keys (map pid csp));
          buy_values = map (\<lambda>i. LVar (Buy i)) (dict_keys (map pid others));
          sold_value = lpSum (map (\<lambda>p. LScale (cost p) (LSub (LConst 1) (LVar (Keep (pid p))))) csp);
          buy_cost = lpSum (map (\<lambda>p. LScale (cost p) (LVar (Buy (pid p)))) others)
      in [LE (lpSum (not_kept csp)) (LAdd (LConst (of_int free_transfers)) (LVar ExtraTransfers)),
          EQ (LAdd (lpSum keep_values) (lpSum buy_values)) (LConst 15),
          EQ (lpSum (not_kept csp)) (lpSum buy_values),
          LE buy_cost sold_value]
         @ map (\<lambda>(pos, count).
                  EQ (LAdd (lpSum (map (\<lambda>p. LVar (Keep (pid p))) (filter (\<lambda>p. element_type p = pos) csp)))
                           (lpSum (map (\<lambda>p. LVar (Buy (pid p))) (filter (\<lambda>p. element_type p = pos) others))))
                     (LConst (of_int count))) pos_counts
         @ map (\<lambda>team_id.
                  LE (LAdd (lpSum (map (\<lambda>p. LVar (Keep (pid p))) (filter (\<lambda>p. team p = team_id) csp)))
                           (lpSum (map (\<lambda>p. LVar (Buy (pid p))) (filter (\<lambda>p. team p = team_id) others))))
                     (LConst 3)) team_ids)"

definition rebuild_constraints :: "player list \<Rightarrow> constr list" where
  "rebuild_constraints avail =
     [EQ (lpSum (map (\<lambda>i. LVar (Select i)) (dict_keys (map pid avail)))) (LConst 15),
      LE (lpSum (map (\<lambda>p. LScale (cost p) (LVar (Select (pid p)))) avail)) (LConst 100)]
     @ map (\<lambda>(pos, count).
              EQ (lpSum (map (\<lambda>p. LVar (Select (pid p))) (filter (\<lambda>p. element_type p = pos) avail)))
                 (LConst (of_int count))) pos_counts
     @ map (\<lambda>team_id.
              LE (lpSum (map (\<lambda>p. LVar (Select (pid p))) (filter (\<lambda>p. team p = team_id) avail)))
                 (LConst 3)) team_ids"

text \<open>The problem \<^verbatim>\<open>FPL_Squad\<close> as \<^verbatim>\<open>optimize_squad\<close> assembles it, with the variables
  that occur in it.\<close>

definition squad_problem ::
  "player list \<Rightarrow> (int \<rightharpoonup> rat) \<Rightarrow> player list \<Rightarrow> int \<Rightarrow> chip option \<Rightarrow> py_error + lp_problem" where
  "squad_problem avail ep csp free_transfers chip =
     (if transfer_mode csp chip then
        (let others = filter (\<lambda>p. p \<notin> set csp) avail
         in case weighted Keep ep csp of
              Inl e \<Rightarrow> Inl e
            | Inr keep_terms \<Rightarrow>
                (case weighted Buy ep others of
                   Inl e \<Rightarrow> Inl e
                 | Inr buy_terms \<Rightarrow>
                     Inr \<lparr>objective = LSub (LAdd (lpSum keep_terms) (lpSum buy_terms))
                                             (LScale 4 (LVar ExtraTransfers)),
                          constraints = transfer_constraints avail csp free_transfers,
                          variables = map (\<lambda>i. (Keep i, Binary)) (dict_keys (map pid csp))
                                      @ map (\<lambda>i. (Buy i, Binary)) (dict_keys (map pid others))
                                      @ [(ExtraTransfers, IntegerLow0)]\<rparr>))
      else
        (case weighted Select ep avail of
           Inl e \<Rightarrow> Inl e
         | Inr terms \<Rightarrow>
             Inr \<lparr>objective = lpSum terms,
                  constraints = rebuild_constraints avail,
                  variables = map (\<lambda>i. (Select i, Binary)) (dict_keys (map pid avail))\<rparr>))"

definition squad_selection :: "player list \<Rightarrow> player list \<Rightarrow> chip option \<Rightarrow> assignment \<Rightarrow> player list" where
  "squad_selection avail csp chip a =
     (if transfer_mode csp chip then
        filter (\<lambda>p. a (Keep (pid p)) = 1) csp
        @ filter (\<lambda>p. p \<notin> set csp \<and> a (Buy (pid p)) = 1) avail
      else filter (\<lambda>p. a (Select (pid p)) = 1) avail)"

definition optimize_squad ::
  "solver \<Rightarrow> player list \<Rightarrow> (int \<rightharpoonup> rat) \<Rightarrow> int option list \<Rightarrow> int \<Rightarrow> chip option
    \<Rightarrow> py_error + (player list \<times> rat \<times> rat)" where
  "optimize_squad solve players ep current_squad free_transfers chip =
     (let avail = avail_players ep players;
          csp = current_squad_players avail current_squad
      in case squad_problem avail ep csp free_transfers chip of
           Inl e \<Rightarrow> Inl e
         | Inr prob \<Rightarrow>
             (case solve prob of
                (status, a) \<Rightarrow>
                  if status \<noteq> Optimal then Inl (ValueError ''No optimal squad.'')
                  else
                    (let selected = squad_selection avail csp chip a;
                         total_cost = sum_list (map cost selected)
                     in case sum_ep selected of
                          Inl e \<Rightarrow> Inl e
                        | Inr squad_expected \<Rightarrow> Inr (selected, total_cost, squad_expected))))"

section \<open>The lineup selector\<close>

definition formations :: "(nat \<times> nat \<times> nat) list" where
  "formations = [(3, 5, 2), (3, 4, 3), (4, 4, 2), (4, 3, 3), (4, 5, 1), (5, 4, 1), (5, 3, 2)]"

text \<open>The decimal digits of a count, for the label \<^verbatim>\<open>f"{def_c}-{mid_c}-{fwd_c}"\<close>.\<close>

definition digit_char :: "nat \<Rightarrow> char" where
  "digit_char n = char_of (48 + n)"

fun string_of_nat :: "nat \<Rightarrow> string" where
  "string_of_nat n =
     (if n < 10 then [digit_char n] else string_of_nat (n div 10) @ [digit_char (n mod 10)])"

declare string_of_nat.simps [simp del]

definition formation_label :: "nat \<times> nat \<times> nat \<Rightarrow> string" where
  "formation_label fm =
     (case fm of (def_c, mid_c, fwd_c) \<Rightarrow>
        string_of_nat def_c @ ''-'' @ string_of_nat mid_c @ ''-'' @ string_of_nat fwd_c)"

text \<open>The problem \<^verbatim>\<open>FPL_Lineup\<close> of one formation.\<close>

definition lineup_constraints :: "player list \<Rightarrow> nat \<times> nat \<times> nat \<Rightarrow> constr list" where
  "lineup_constraints selected fm =
     (case fm of (def_c, mid_c, fwd_c) \<Rightarrow>
        [EQ (lpSum (map (\<lambda>p. LVar (Select2 (pid p))) selected)) (LConst 11),
         EQ (lpSum (map (\<lambda>p. LVar (Select2 (pid p))) (filter (\<lambda>p. element_type p = 1) selected)))
            (LConst 1),
         EQ (lpSum (map (\<lambda>p. LVar (Select2 (pid p))) (filter (\<lambda>p. element_type p = 2) selected)))
            (LConst (of_nat def_c)),
         EQ (lpSum (map (\<lambda>p. LVar (Select2 (pid p))) (filter (\<lambda>p. element_type p = 3) selected)))
            (LConst (of_nat mid_c)),
         EQ (lpSum (map (\<lambda>p. LVar (Select2 (pid p))) (filter (\<lambda>p. element_type p = 4) selected)))
            (LConst (of_nat fwd_c))])"

definition lineup_problem ::
  "player list \<Rightarrow> (int \<rightharpoonup> rat) \<Rightarrow> nat \<times> nat \<times> nat \<Rightarrow> py_error + lp_problem" where
  "lineup_problem selected ep fm =
     (case weighted Select2 ep selected of
        Inl e \<Rightarrow> Inl e
      | Inr terms \<Rightarrow>
          Inr \<lparr>objective = lpSum terms,
               constraints = lineup_constraints selected fm,
               variables = map (\<lambda>i. (Select2 i, Binary)) (dict_keys (map pid selected))\<rparr>)"

text \<open>The sort key \<^verbatim>\<open>p['expected_points']\<close>. It is read only for players over which
  \<^verbatim>\<open>sum(p['expected_points'] ...)\<close> has already succeeded, so the key is present there.\<close>

definition ep_key :: "player \<Rightarrow> rat" where
  "ep_key p = (case expected_points p of None \<Rightarrow> 0 | Some v \<Rightarrow> v)"

text \<open>\<^verbatim>\<open>sorted(xs, key=k, reverse=True)\<close>: descending and stable.\<close>

definition sorted_desc :: "('a \<Rightarrow> rat) \<Rightarrow> 'a list \<Rightarrow> 'a list" where
  "sorted_desc k xs = sort_key (\<lambda>x. - k x) xs"

text \<open>\<^verbatim>\<open>max(xs, key=k)\<close>: the first element with the largest key; an empty sequence raises.\<close>

fun max_from :: "player \<Rightarrow> player list \<Rightarrow> player" where
  "max_from m [] = m"
| "max_from m (p # ps) = max_from (if ep_key m < ep_key p then p else m) ps"

definition py_max :: "player list \<Rightarrow> py_error + player" where
  "py_max xs =
     (case xs of
        [] \<Rightarrow> Inl (ValueError ''max() arg is an empty sequence'')
      | p # ps \<Rightarrow> Inr (max_from p ps))"

text \<open>The first half of the loop body: solve one formation and, when the status is
  optimal, compute its lineup and projected total.\<close>

definition formation_candidate ::
  "solver \<Rightarrow> player list \<Rightarrow> (int \<rightharpoonup> rat) \<Rightarrow> chip option \<Rightarrow> nat \<times> nat \<times> nat
    \<Rightarrow> py_error + (player list \<times> rat) option" where
  "formation_candidate solve selected ep chip fm =
     (case lineup_problem selected ep fm of
        Inl e \<Rightarrow> Inl e
      | Inr prob2 \<Rightarrow>
          (case solve prob2 of
             (status, a) \<Rightarrow>
               if status = Optimal then
                 (let lineup = filter (\<lambda>p. a (Select2 (pid p)) = 1) selected
                  in case sum_ep lineup of
                       Inl e \<Rightarrow> Inl e
                     | Inr lineup_sum \<Rightarrow>
                         (let exps = sorted_desc (\<lambda>v. v) (map ep_key lineup);
                              cap_bonus = (if exps \<noteq> []
                                           then hd exps * (if chip \<noteq> Some TripleCaptain then 2 else 3)
                                           else 0);
                              proj_total = lineup_sum + cap_bonus
                          in if chip = Some BenchBoost then
                               (case sum_ep (filter (\<lambda>p. p \<notin> set lineup) selected) of
                                  Inl e \<Rightarrow> Inl e
                                | Inr bench_sum \<Rightarrow> Inr (Some (lineup, proj_total + bench_sum)))
                             else Inr (Some (lineup, proj_total))))
               else Inr None))"

record best =
  best_lineup :: "player list"
  best_form :: "string option"
  best_proj :: rat
  best_captain :: "player option"
  best_vice :: "player option"

text \<open>The second half of the loop body: \<^verbatim>\<open>if proj_total > best_proj\<close>.\<close>

definition update_best ::
  "best \<Rightarrow> nat \<times> nat \<times> nat \<Rightarrow> player list \<Rightarrow> rat \<Rightarrow> py_error + best" where
  "update_best b fm lineup proj_total =
     (if best_proj b < proj_total then
        (case py_max lineup of
           Inl e \<Rightarrow> Inl e
         | Inr captain \<Rightarrow>
             Inr \<lparr>best_lineup = lineup,
                  best_form = Some (formation_label fm),
                  best_proj = proj_total,
                  best_captain = Some captain,
                  best_vice = (if 1 < length lineup then Some (sorted_desc ep_key lineup ! 1)
                               else None)\<rparr>)
      else Inr b)"

fun lineup_loop ::
  "solver \<Rightarrow> player list \<Rightarrow> (int \<rightharpoonup> rat) \<Rightarrow> chip option \<Rightarrow> best \<Rightarrow> (nat \<times> nat \<times> nat) list
    \<Rightarrow> py_error + best" where
  "lineup_loop solve selected ep chip b [] = Inr b"
| "lineup_loop solve selected ep chip b (fm # fms) =
     (case formation_candidate solve selected ep chip fm of
        Inl e \<Rightarrow> Inl e
      | Inr None \<Rightarrow> lineup_loop solve selected ep chip b fms
      | Inr (Some (lineup, proj_total)) \<Rightarrow>
          (case update_best b fm lineup proj_total of
             Inl e \<Rightarrow> Inl e
           | Inr b' \<Rightarrow> lineup_loop solve selected ep chip b' fms))"

definition initial_best :: best where
  "initial_best =
     \<lparr>best_lineup = [], best_form = None, best_proj = 0, best_captain = None, best_vice = None\<rparr>"

definition optimize_lineup ::
  "solver \<Rightarrow> player list \<Rightarrow> (int \<rightharpoonup> rat) \<Rightarrow> chip option
    \<Rightarrow> py_error + (player list \<times> string option \<times> rat \<times> player option \<times> player option)" where
  "optimize_lineup solve selected ep chip =
     (case lineup_loop solve selected ep chip initial_best formations of
        Inl e \<Rightarrow> Inl e
      | Inr b \<Rightarrow> Inr (best_lineup b, best_form b, best_proj b, best_captain b, best_vice b))"

section \<open>The squad snapshot\<close>

text \<open>
  What reading the snapshot file can meet: no file, a file that cannot be opened, bytes
  that do not decode as text, text that is not JSON, or a list of entries.
\<close>

datatype snapshot_file =
    Absent
  | Unopenable
  | Undecodable
  | MalformedJSON
  | Content "int option list"

text \<open>\<^verbatim>\<open>load_squad\<close>: \<^verbatim>\<open>os.path.exists\<close> guards the absent file and the handler catches
  \<^verbatim>\<open>json.JSONDecodeError\<close> only.\<close>

fun load_squad :: "snapshot_file \<Rightarrow> py_error + int option list" where
  "load_squad Absent = Inr []"
| "load_squad Unopenable = Inl OSError"
| "load_squad Undecodable = Inl UnicodeDecodeError"
| "load_squad MalformedJSON = Inr []"
| "load_squad (Content entries) = Inr entries"

text \<open>The \<^verbatim>\<open>--squad\<close> branch of \<^verbatim>\<open>main\<close>: every exception is caught there.\<close>

fun load_squad_override :: "snapshot_file \<Rightarrow> int option list" where
  "load_squad_override (Content entries) = entries"
| "load_squad_override _ = []"

text \<open>The start of \<^verbatim>\<open>main\<close>: \<open>None\<close> is a run without \<^verbatim>\<open>--squad\<close>, which reads the
  default file through \<^verbatim>\<open>load_squad\<close> outside any handler.\<close>

definition main_load :: "snapshot_file \<Rightarrow> snapshot_file option \<Rightarrow> py_error + int option list" where
  "main_load default_file squad_arg =
     (case squad_arg of
        None \<Rightarrow> load_squad default_file
      | Some f \<Rightarrow> Inr (load_squad_override f))"

text \<open>\<^verbatim>\<open>save_squad\<close>: the write may fail; the handler logs and returns normally. The
  result is the new content of the file (\<open>None\<close> when nothing was written) and the line
  logged.\<close>

definition save_squad :: "bool \<Rightarrow> player list \<Rightarrow> (int \<times> string \<times> int \<times> int) list option \<times> string list" where
  "save_squad write_ok selected =
     (let optimized_squad = map (\<lambda>p. (pid p, web_name p, element_type p, team p)) selected
      in if write_ok then (Some optimized_squad, [])
         else (None, [''Error saving squad'']))"

section \<open>Notions used to state the properties\<close>

text \<open>What the external solver owes on one submitted problem: an optimal status comes
  with an assignment that satisfies the problem (respectively, that is optimal for it). A
  problem whose construction already raised places no obligation.\<close>

definition solver_sound_on :: "solver \<Rightarrow> py_error + lp_problem \<Rightarrow> bool" where
  "solver_sound_on solve r =
     (case r of
        Inl e \<Rightarrow> True
      | Inr prob \<Rightarrow> (case solve prob of (status, a) \<Rightarrow> status = Optimal \<longrightarrow> feasible prob a))"

definition solver_optimal_on :: "solver \<Rightarrow> py_error + lp_problem \<Rightarrow> bool" where
  "solver_optimal_on solve r =
     (case r of
        Inl e \<Rightarrow> True
      | Inr prob \<Rightarrow> (case solve prob of (status, a) \<Rightarrow> status = Optimal \<longrightarrow> optimal prob a))"

definition binary_on :: "assignment \<Rightarrow> ('a \<Rightarrow> var) \<Rightarrow> 'a list \<Rightarrow> bool" where
  "binary_on a v xs = (\<forall>x\<in>set xs. 0 \<le> a (v x) \<and> a (v x) \<le> 1)"

text \<open>The problem \<^verbatim>\<open>optimize_squad\<close> submits, as a function of its arguments.\<close>

definition squad_lp ::
  "player list \<Rightarrow> (int \<rightharpoonup> rat) \<Rightarrow> int option list \<Rightarrow> int \<Rightarrow> chip option \<Rightarrow> py_error + lp_problem" where
  "squad_lp players ep current_squad free_transfers chip =
     squad_problem (avail_players ep players) ep
       (current_squad_players (avail_players ep players) current_squad) free_transfers chip"

definition count_pos :: "int \<Rightarrow> player list \<Rightarrow> nat" where
  "count_pos pos ps = length (filter (\<lambda>p. element_type p = pos) ps)"

definition count_club :: "int \<Rightarrow> player list \<Rightarrow> nat" where
  "count_club c ps = length (filter (\<lambda>p. team p = c) ps)"

definition fields_ok :: "(int \<rightharpoonup> rat) \<Rightarrow> player list \<Rightarrow> bool" where
  "fields_ok ep ps = list_all (\<lambda>p. ep (pid p) \<noteq> None \<and> expected_points p \<noteq> None) ps"

section \<open>Example data\<close>

text \<open>A stand-in solver for concrete runs: it proposes one fixed assignment and reports
  an optimal status exactly when that assignment satisfies the submitted problem.\<close>

definition toy_solve :: "assignment \<Rightarrow> solver" where
  "toy_solve a prob = (if feasible prob a then (Optimal, a) else (Infeasible, a))"

definition all_ones :: assignment where
  "all_ones v = 1"

definition mk_player :: "int \<Rightarrow> int \<Rightarrow> int \<Rightarrow> rat \<Rightarrow> player" where
  "mk_player i pos club e =
     \<lparr>pid = i, web_name = ''p'', element_type = pos, team = club, now_cost = 50,
      form = 0, points_per_game = 0, ict_index = 0, chance_of_playing_next_round = ChanceNull,
      expected_points = Some e\<rparr>"

text \<open>Fifteen players, 2/5/5/3 by position, three from each of the clubs 1 to 5; within
  a position the ids are in descending order of expected points.\<close>

definition squad15 :: "player list" where
  "squad15 =
     [mk_player 1 1 1 4, mk_player 2 1 2 3,
      mk_player 3 2 1 6, mk_player 4 2 2 5, mk_player 5 2 3 4, mk_player 6 2 4 3, mk_player 7 2 5 2,
      mk_player 8 3 1 9, mk_player 9 3 2 7, mk_player 10 3 3 6, mk_player 11 3 4 5, mk_player 12 3 5 4,
      mk_player 13 4 3 8, mk_player 14 4 4 6, mk_player 15 4 5 3]"

text \<open>The same pool with four of the players at a club whose id is 21.\<close>

definition squad15_club21 :: "player list" where
  "squad15_club21 =
     [mk_player 1 1 21 4, mk_player 2 1 2 3,
      mk_player 3 2 21 6, mk_player 4 2 2 5, mk_player 5 2 3 4, mk_player 6 2 4 3, mk_player 7 2 5 2,
      mk_player 8 3 21 9, mk_player 9 3 2 7, mk_player 10 3 3 6, mk_player 11 3 4 5, mk_player 12 3 5 4,
      mk_player 13 4 21 8, mk_player 14 4 4 6, mk_player 15 4 5 3]"

definition ep_of_fields :: "player list \<Rightarrow> (int \<rightharpoonup> rat)" where
  "ep_of_fields ps = map_of (map (\<lambda>p. (pid p, ep_key p)) ps)"

text \<open>A stand-in solver with several proposals: the first one that satisfies the
  submitted problem is returned with an optimal status.\<close>

definition toy_solve_list :: "assignment list \<Rightarrow> solver" where
  "toy_solve_list proposals prob =
     (case filter (feasible prob) proposals of
        [] \<Rightarrow> (Infeasible, all_ones)
      | a # _ \<Rightarrow> (Optimal, a))"

text \<open>For the pool \<open>squad15\<close>: the first goalkeeper and the first \<open>def_c\<close> defenders,
  \<open>mid_c\<close> midfielders and \<open>fwd_c\<close> forwards, which are the highest-scoring ones.\<close>

definition top_lineup :: "nat \<times> nat \<times> nat \<Rightarrow> assignment" where
  "top_lineup fm v =
     (case fm of (def_c, mid_c, fwd_c) \<Rightarrow>
        (case v of
           Select2 i \<Rightarrow>
             (if i = 1 \<or> (3 \<le> i \<and> i < 3 + int def_c) \<or> (8 \<le> i \<and> i < 8 + int mid_c)
                 \<or> (13 \<le> i \<and> i < 13 + int fwd_c)
              then 1 else 0)
         | _ \<Rightarrow> 0))"

definition top_lineups :: "assignment list" where
  "top_lineups = map top_lineup formations"

definition zero_points :: "player list \<Rightarrow> player list" where
  "zero_points ps = map (\<lambda>p. p\<lparr>expected_points := Some 0\<rparr>) ps"

definition cand_total ::
  "solver \<Rightarrow> player list \<Rightarrow> (int \<rightharpoonup> rat) \<Rightarrow> chip option \<Rightarrow> nat \<times> nat \<times> nat \<Rightarrow> rat option" where
  "cand_total solve selected ep chip fm =
     (case formation_candidate solve selected ep chip fm of
        Inr (Some (l, t)) \<Rightarrow> Some t
      | _ \<Rightarrow> None)"

definition chosen_best :: "nat \<times> nat \<times> nat \<Rightarrow> player list \<Rightarrow> rat \<Rightarrow> player \<Rightarrow> best" where
  "chosen_best fm lineup proj_total captain =
     \<lparr>best_lineup = lineup, best_form = Some (formation_label fm), best_proj = proj_total,
      best_captain = Some captain,
      best_vice = (if 1 < length lineup then Some (sorted_desc ep_key lineup ! 1) else None)\<rparr>"

definition lineup_352 :: "player list" where
  "lineup_352 = filter (\<lambda>p. pid p \<in> set [1, 3, 4, 5, 8, 9, 10, 11, 12, 13, 14]) squad15"

definition set_expected :: "(int \<rightharpoonup> rat) \<Rightarrow> player \<Rightarrow> player" where
  "set_expected ep p = (case ep (pid p) of None \<Rightarrow> p | Some v \<Rightarrow> p\<lparr>expected_points := Some v\<rparr>)"

definition average_club_strength :: "club list \<Rightarrow> rat" where
  "average_club_strength teams = of_int (sum_list (map strength teams)) / of_nat (length teams)"

definition opponent_strength :: "club list \<Rightarrow> int \<Rightarrow> rat" where
  "opponent_strength teams i =
     (case find (\<lambda>t. club_id t = i) teams of None \<Rightarrow> 0 | Some t \<Rightarrow> of_int (strength t))"

definition availability :: "player \<Rightarrow> rat" where
  "availability p =
     (case chance_of_playing_next_round p of ChanceNum c \<Rightarrow> c | _ \<Rightarrow> 100)"

definition spec_fixture_points :: "club list \<Rightarrow> player \<Rightarrow> team_fixture \<Rightarrow> rat" where
  "spec_fixture_points teams p fx =
     (6 / 10 * form p + 4 / 10 * points_per_game p)
     * ((6 - of_int (diff fx)) / 5)
     * (if home fx then 12 / 10 else 9 / 10)
     * (average_club_strength teams / opponent_strength teams (opp_id fx))
     * (1 + ict_index p / 100 * (2 / 10))"

definition spec_estimate :: "club list \<Rightarrow> player \<Rightarrow> team_fixture list \<Rightarrow> rat" where
  "spec_estimate teams p fixes =
     py_round2 (sum_list (map (spec_fixture_points teams p) fixes) * (availability p / 100))"

definition opponents_known :: "(int \<rightharpoonup> team_fixture list) \<Rightarrow> bool" where
  "opponents_known tf = (\<forall>k fs. tf k = Some fs \<longrightarrow> (\<forall>fx\<in>set fs. opp_id fx \<in> dom tf))"

definition mk_raw :: "int \<Rightarrow> int \<Rightarrow> int \<Rightarrow> rat \<Rightarrow> rat \<Rightarrow> rat \<Rightarrow> chance_val \<Rightarrow> player" where
  "mk_raw i pos club f ppg ict chance =
     \<lparr>pid = i, web_name = ''p'', element_type = pos, team = club, now_cost = 50,
      form = f, points_per_game = ppg, ict_index = ict, chance_of_playing_next_round = chance,
      expected_points = None\<rparr>"

definition feed_clubs :: "club list" where
  "feed_clubs =
     [\<lparr>club_id = 1, short_name = ''AAA'', strength = 3\<rparr>,
      \<lparr>club_id = 2, short_name = ''BBB'', strength = 4\<rparr>,
      \<lparr>club_id = 3, short_name = ''CCC'', strength = 5\<rparr>]"

definition feed_fixtures :: "fixture list" where
  "feed_fixtures = [\<lparr>team_h = 1, team_a = 2, team_h_difficulty = 2, team_a_difficulty = 4\<rparr>]"

definition feed_tf :: "int \<rightharpoonup> team_fixture list" where
  "feed_tf =
     [1 \<mapsto> [\<lparr>opp_id = 2, diff = 2, home = True\<rparr>],
      2 \<mapsto> [\<lparr>opp_id = 1, diff = 4, home = False\<rparr>],
      3 \<mapsto> []]"

definition feed_players :: "player list" where
  "feed_players =
     [mk_raw 1 3 1 5 4 50 ChanceNull,
      mk_raw 2 3 2 5 4 50 (ChanceNum 0),
      mk_raw 3 4 3 5 4 50 (ChanceNum 100),
      mk_raw 4 2 2 6 5 0 (ChanceNum 75)]"

definition all_zeros :: assignment where
  "all_zeros v = 0"

section \<open>Linear expressions and binary variables\<close>

lemma lp_eval_lpSum: "lp_eval a (lpSum es) = sum_list (map (lp_eval a) es)"
  by (induction es) (simp_all add: lpSum_def)

lemma dict_keys_set: "set (dict_keys ks) = set ks"
  by (induction ks) auto

lemma dict_keys_distinct: "distinct ks \<Longrightarrow> dict_keys ks = ks"
proof (induction ks)
  case Nil
  then show ?case by simp
next
  case (Cons k ks)
  then have "k \<notin> set ks" and "dict_keys ks = ks" by simp_all
  then have "filter (\<lambda>j. j \<noteq> k) (dict_keys ks) = ks"
    by (auto simp: filter_id_conv)
  then show ?case by simp
qed

lemma binary_count:
  "binary_on a v xs \<Longrightarrow>
   (\<Sum>x\<leftarrow>xs. rat_of_int (a (v x))) = of_nat (length (filter (\<lambda>x. a (v x) = 1) xs))"
proof (induction xs)
  case Nil
  then show ?case by simp
next
  case (Cons x xs)
  then have b: "a (v x) = 0 \<or> a (v x) = 1" and r: "binary_on a v xs"
    by (auto simp: binary_on_def)
  from b show ?case using Cons.IH [OF r] by auto
qed

lemma binary_weighted:
  "binary_on a v xs \<Longrightarrow>
   (\<Sum>x\<leftarrow>xs. c x * rat_of_int (a (v x))) = sum_list (map c (filter (\<lambda>x. a (v x) = 1) xs))"
proof (induction xs)
  case Nil
  then show ?case by simp
next
  case (Cons x xs)
  then have b: "a (v x) = 0 \<or> a (v x) = 1" and r: "binary_on a v xs"
    by (auto simp: binary_on_def)
  from b show ?case using Cons.IH [OF r] by auto
qed

lemma binary_on_filter: "binary_on a v xs \<Longrightarrow> binary_on a v (filter P xs)"
  by (simp add: binary_on_def)

lemma in_category_binary:
  "list_all (in_category a) (map (\<lambda>i. (x i, Binary)) ks) \<Longrightarrow> set (map f ps) \<subseteq> set ks
   \<Longrightarrow> binary_on a (\<lambda>p. x (f p)) ps"
  by (auto simp: binary_on_def list_all_iff)

section \<open>The squad selector in full-rebuild mode\<close>

lemma distinct_avail: "distinct (map pid players) \<Longrightarrow> distinct (map pid (avail_players ep players))"
  by (simp add: avail_players_def distinct_map_filter)

lemma rebuild_problem_parts:
  assumes "\<not> transfer_mode csp chip" and "squad_problem avail ep csp ft chip = Inr prob"
  shows "constraints prob = rebuild_constraints avail"
    and "variables prob = map (\<lambda>i. (Select i, Binary)) (dict_keys (map pid avail))"
  using assms by (auto simp: squad_problem_def split: sum.splits)

lemma optimize_squad_Inr:
  assumes "optimize_squad solve players ep current_squad ft chip = Inr (selected, total_cost, squad_expected)"
  obtains prob where "squad_lp players ep current_squad ft chip = Inr prob"
    and "fst (solve prob) = Optimal"
    and "selected = squad_selection (avail_players ep players)
           (current_squad_players (avail_players ep players) current_squad) chip (snd (solve prob))"
    and "total_cost = sum_list (map cost selected)"
    and "sum_ep selected = Inr squad_expected"
  using assms
  by (auto simp: optimize_squad_def squad_lp_def Let_def split: sum.splits prod.splits if_splits)

lemma rebuild_constraints_holds:
  "list_all (holds a) (rebuild_constraints avail) =
     ((\<Sum>i\<leftarrow>dict_keys (map pid avail). rat_of_int (a (Select i))) = 15 \<and>
      (\<Sum>p\<leftarrow>avail. cost p * rat_of_int (a (Select (pid p)))) \<le> 100 \<and>
      (\<forall>pc\<in>set pos_counts.
         (\<Sum>p\<leftarrow>filter (\<lambda>p. element_type p = fst pc) avail. rat_of_int (a (Select (pid p))))
           = rat_of_int (snd pc)) \<and>
      (\<forall>c\<in>set team_ids.
         (\<Sum>p\<leftarrow>filter (\<lambda>p. team p = c) avail. rat_of_int (a (Select (pid p)))) \<le> 3))"
  by (simp add: rebuild_constraints_def list_all_iff ball_Un lp_eval_lpSum comp_def
      case_prod_beta conj_assoc)

lemma rebuild_feasible_squad:
  assumes d: "distinct (map pid avail)"
    and f0: "list_all (holds a) (rebuild_constraints avail)"
    and b: "list_all (in_category a) (map (\<lambda>i. (Select i, Binary)) (dict_keys (map pid avail)))"
  defines "sel \<equiv> filter (\<lambda>p. a (Select (pid p)) = 1) avail"
  shows "length sel = 15" and "sum_list (map cost sel) \<le> 100"
    and "count_pos 1 sel = 2" and "count_pos 2 sel = 5" and "count_pos 3 sel = 5" and "count_pos 4 sel = 3"
    and "\<forall>c\<in>set team_ids. count_club c sel \<le> 3"
proof -
  have bin: "binary_on a (\<lambda>p. Select (pid p)) avail"
    using b by (intro in_category_binary) (auto simp: dict_keys_set)
  have keys: "dict_keys (map pid avail) = map pid avail"
    using d by (rule dict_keys_distinct)
  note f = f0 [unfolded rebuild_constraints_holds]
  have c1: "(\<Sum>p\<leftarrow>avail. lp_eval a (LVar (Select (pid p)))) = 15"
    using f by (simp add: keys comp_def)
  then show "length sel = 15"
    by (simp add: binary_count [OF bin] sel_def)
  have "(\<Sum>p\<leftarrow>avail. cost p * rat_of_int (a (Select (pid p)))) \<le> 100"
    using f by simp
  then show "sum_list (map cost sel) \<le> 100"
    by (simp add: binary_weighted [OF bin] sel_def)
  have pos: "int (count_pos pos sel) = count" if "(pos, count) \<in> set pos_counts" for pos count
  proof -
    have "(\<Sum>p\<leftarrow>filter (\<lambda>p. element_type p = pos) avail. lp_eval a (LVar (Select (pid p)))) = of_int count"
      using f that by fastforce
    then have "rat_of_int (int (count_pos pos sel)) = of_int count"
      by (simp add: binary_count [OF binary_on_filter [OF bin]] sel_def count_pos_def conj_commute)
    then show ?thesis by (simp only: of_int_eq_iff)
  qed
  have "int (count_pos 1 sel) = 2" by (rule pos) (simp add: pos_counts_def)
  then show "count_pos 1 sel = 2" by simp
  have "int (count_pos 2 sel) = 5" by (rule pos) (simp add: pos_counts_def)
  then show "count_pos 2 sel = 5" by simp
  have "int (count_pos 3 sel) = 5" by (rule pos) (simp add: pos_counts_def)
  then show "count_pos 3 sel = 5" by simp
  have "int (count_pos 4 sel) = 3" by (rule pos) (simp add: pos_counts_def)
  then show "count_pos 4 sel = 3" by simp
  show "\<forall>c\<in>set team_ids. count_club c sel \<le> 3"
  proof
    fix c assume "c \<in> set team_ids"
    then have "(\<Sum>p\<leftarrow>filter (\<lambda>p. team p = c) avail. lp_eval a (LVar (Select (pid p)))) \<le> 3"
      using f by simp
    then show "count_club c sel \<le> 3"
      by (simp add: binary_count [OF binary_on_filter [OF bin]] sel_def count_club_def conj_commute)
  qed
qed

lemma toy_solve_sound: "solver_sound_on (toy_solve a) r"
  by (simp add: solver_sound_on_def toy_solve_def split: sum.splits)

lemma not_transfer_mode_rebuild:
  "current_squad = [] \<or> chip = Some Wildcard \<or> chip = Some FreeHit
   \<Longrightarrow> \<not> transfer_mode (current_squad_players avail current_squad) chip"
  by (auto simp: transfer_mode_def)

text \<open>
  Claim C2, as the code has it. In full-rebuild mode (no current squad, or a wildcard or
  free-hit chip), with distinct player ids and a solver whose optimal status comes with an
  assignment satisfying the submitted problem, every squad that \<^verbatim>\<open>optimize_squad\<close>
  returns has exactly 15 players, a total cost of at most 100.0, exactly 2 goalkeepers,
  5 defenders, 5 midfielders and 3 forwards, and at most 3 players from each club whose id
  is one of 1 to 20, the ids over which the source states the club cap.
\<close>

theorem squad_rebuild_invariant:
  assumes "distinct (map pid players)"
    and "current_squad = [] \<or> chip = Some Wildcard \<or> chip = Some FreeHit"
    and "solver_sound_on solve (squad_lp players ep current_squad free_transfers chip)"
    and "optimize_squad solve players ep current_squad free_transfers chip
           = Inr (selected, total_cost, squad_expected)"
  shows "length selected = 15 \<and> total_cost = sum_list (map cost selected) \<and> total_cost \<le> 100 \<and>
         count_pos 1 selected = 2 \<and> count_pos 2 selected = 5 \<and>
         count_pos 3 selected = 5 \<and> count_pos 4 selected = 3 \<and>
         (\<forall>c\<in>set team_ids. count_club c selected \<le> 3)"
proof -
  let ?avail = "avail_players ep players"
  let ?csp = "current_squad_players ?avail current_squad"
  from assms(4) obtain prob where
    p: "squad_lp players ep current_squad free_transfers chip = Inr prob"
    and st: "fst (solve prob) = Optimal"
    and sel: "selected = squad_selection ?avail ?csp chip (snd (solve prob))"
    and tc: "total_cost = sum_list (map cost selected)"
    by (rule optimize_squad_Inr)
  have nt: "\<not> transfer_mode ?csp chip"
    using assms(2) by (rule not_transfer_mode_rebuild)
  have feas: "feasible prob (snd (solve prob))"
    using assms(3) st by (simp add: p solver_sound_on_def split: prod.splits)
  have parts: "constraints prob = rebuild_constraints ?avail"
    "variables prob = map (\<lambda>i. (Select i, Binary)) (dict_keys (map pid ?avail))"
    using rebuild_problem_parts [OF nt p [unfolded squad_lp_def]] by simp_all
  have sel': "selected = filter (\<lambda>p. snd (solve prob) (Select (pid p)) = 1) ?avail"
    using sel nt by (simp add: squad_selection_def)
  note r = rebuild_feasible_squad [OF distinct_avail [OF assms(1)],
      of "snd (solve prob)" ep, folded sel']
  from feas have "list_all (holds (snd (solve prob))) (rebuild_constraints ?avail)"
    and "list_all (in_category (snd (solve prob)))
           (map (\<lambda>i. (Select i, Binary)) (dict_keys (map pid ?avail)))"
    by (simp_all add: feasible_def parts)
  then show ?thesis using r tc by simp
qed

lemma squad15_run:
  "optimize_squad (toy_solve all_ones) squad15 (ep_of_fields squad15) [] 1 None = Inr (squad15, 75, 75)"
  by code_simp

theorem squad_rebuild_invariant_witness:
  "distinct (map pid squad15) \<and>
   solver_sound_on (toy_solve all_ones) (squad_lp squad15 (ep_of_fields squad15) [] 1 None) \<and>
   optimize_squad (toy_solve all_ones) squad15 (ep_of_fields squad15) [] 1 None = Inr (squad15, 75, 75) \<and>
   length squad15 = 15 \<and> (75::rat) \<le> 100 \<and>
   count_pos 1 squad15 = 2 \<and> count_pos 2 squad15 = 5 \<and> count_pos 3 squad15 = 5 \<and>
   count_pos 4 squad15 = 3 \<and> list_all (\<lambda>c. count_club c squad15 \<le> 3) team_ids"
proof -
  have d: "distinct (map pid squad15)" by code_simp
  show ?thesis
    using squad_rebuild_invariant [OF d _ toy_solve_sound squad15_run] d squad15_run toy_solve_sound
    by (simp add: list_all_iff)
qed

text \<open>When the pool has exactly 15 players, every assignment that satisfies the rebuild
  problem selects all of them, so each such assignment is optimal.\<close>

lemma weighted_eval_cong:
  "weighted x ep ps = Inr ts \<Longrightarrow> \<forall>p\<in>set ps. a (x (pid p)) = a' (x (pid p))
   \<Longrightarrow> lp_eval a (lpSum ts) = lp_eval a' (lpSum ts)"
proof (induction ps arbitrary: ts)
  case Nil
  then show ?case by (simp add: lpSum_def)
next
  case (Cons p ps)
  then obtain v ts' where "ep (pid p) = Some v" "weighted x ep ps = Inr ts'"
    "ts = LScale v (LVar (x (pid p))) # ts'"
    by (auto split: option.splits sum.splits)
  with Cons show ?case by (simp add: lp_eval_lpSum)
qed

lemma filter_full: "length (filter P xs) = length xs \<Longrightarrow> \<forall>x\<in>set xs. P x"
  by (metis filter_id_conv length_filter_less less_irrefl)

lemma full_pool_optimal:
  assumes d: "distinct (map pid avail)" and n: "length avail = 15"
    and nt: "\<not> transfer_mode csp chip"
    and p: "squad_problem avail ep csp ft chip = Inr prob"
    and f: "feasible prob a"
  shows "optimal prob a"
proof -
  note parts = rebuild_problem_parts [OF nt p]
  have ones: "\<forall>p\<in>set avail. b (Select (pid p)) = 1" if "feasible prob b" for b
  proof -
    have "length (filter (\<lambda>p. b (Select (pid p)) = 1) avail) = 15"
      using that by (intro rebuild_feasible_squad(1) [OF d]) (simp_all add: feasible_def parts)
    then show ?thesis using n by (intro filter_full) simp
  qed
  obtain ts where ts: "weighted Select ep avail = Inr ts" and obj: "objective prob = lpSum ts"
    using p nt by (auto simp: squad_problem_def split: sum.splits)
  show ?thesis
    unfolding optimal_def
  proof (intro conjI allI impI)
    show "feasible prob a" by (rule f)
  next
    fix a' assume "feasible prob a'"
    then have "\<forall>p\<in>set avail. a' (Select (pid p)) = a (Select (pid p))"
      using ones [OF f] ones by simp
    then have "lp_eval a' (lpSum ts) = lp_eval a (lpSum ts)"
      by (rule weighted_eval_cong [OF ts])
    then show "lp_eval a' (objective prob) \<le> lp_eval a (objective prob)"
      by (simp add: obj)
  qed
qed

lemma squad15_club21_run:
  "optimize_squad (toy_solve all_ones) squad15_club21 (ep_of_fields squad15_club21) [] 1 None
     = Inr (squad15_club21, 75, 75)"
  by code_simp

lemma toy_solve_status: "fst (toy_solve a prob) = Optimal \<Longrightarrow> feasible prob a \<and> snd (toy_solve a prob) = a"
  by (simp add: toy_solve_def split: if_splits)

text \<open>
  Claim C2 as stated fails for a club outside 1 to 20: on the pool \<open>squad15_club21\<close> the
  only assignment satisfying the submitted problem, hence the optimal one, selects four
  players of club 21, and \<^verbatim>\<open>optimize_squad\<close> returns them.
\<close>

theorem squad_club_cap_counterexample:
  "solver_optimal_on (toy_solve all_ones)
     (squad_lp squad15_club21 (ep_of_fields squad15_club21) [] 1 None) \<and>
   optimize_squad (toy_solve all_ones) squad15_club21 (ep_of_fields squad15_club21) [] 1 None
     = Inr (squad15_club21, 75, 75) \<and>
   count_club 21 squad15_club21 = 4"
proof -
  have av: "avail_players (ep_of_fields squad15_club21) squad15_club21 = squad15_club21"
    by code_simp
  have d: "distinct (map pid squad15_club21)" by code_simp
  have n: "length squad15_club21 = 15" by code_simp
  have nt: "\<not> transfer_mode [] None" by (simp add: transfer_mode_def)
  have "solver_optimal_on (toy_solve all_ones)
     (squad_lp squad15_club21 (ep_of_fields squad15_club21) [] 1 None)"
    unfolding solver_optimal_on_def squad_lp_def av
    using full_pool_optimal [OF d n nt]
    by (auto split: sum.splits dest: toy_solve_status simp: toy_solve_def)
  moreover have "count_club 21 squad15_club21 = 4" by code_simp
  ultimately show ?thesis using squad15_club21_run by simp
qed

section \<open>The lineup selector\<close>

lemma weighted_Inr: "\<forall>p\<in>set ps. ep (pid p) \<noteq> None \<Longrightarrow> \<exists>ts. weighted x ep ps = Inr ts"
  by (induction ps) auto

lemma sum_ep_Inr: "\<forall>p\<in>set ps. expected_points p \<noteq> None \<Longrightarrow> sum_ep ps = Inr (sum_list (map ep_key ps))"
  by (induction ps) (auto simp: ep_key_def)

lemma sum_ep_InrD:
  "sum_ep ps = Inr s \<Longrightarrow> s = sum_list (map ep_key ps) \<and> (\<forall>p\<in>set ps. expected_points p \<noteq> None)"
  by (induction ps arbitrary: s) (auto simp: ep_key_def split: option.splits sum.splits)

lemma lineup_constraints_holds:
  "list_all (holds a) (lineup_constraints selected (d, m, f)) =
     ((\<Sum>p\<leftarrow>selected. rat_of_int (a (Select2 (pid p)))) = 11 \<and>
      (\<Sum>p\<leftarrow>filter (\<lambda>p. element_type p = 1) selected. rat_of_int (a (Select2 (pid p)))) = 1 \<and>
      (\<Sum>p\<leftarrow>filter (\<lambda>p. element_type p = 2) selected. rat_of_int (a (Select2 (pid p)))) = of_nat d \<and>
      (\<Sum>p\<leftarrow>filter (\<lambda>p. element_type p = 3) selected. rat_of_int (a (Select2 (pid p)))) = of_nat m \<and>
      (\<Sum>p\<leftarrow>filter (\<lambda>p. element_type p = 4) selected. rat_of_int (a (Select2 (pid p)))) = of_nat f)"
  by (simp add: lineup_constraints_def lp_eval_lpSum comp_def)

lemma lineup_problem_parts:
  assumes "lineup_problem selected ep fm = Inr prob"
  shows "constraints prob = lineup_constraints selected fm"
    and "variables prob = map (\<lambda>i. (Select2 i, Binary)) (dict_keys (map pid selected))"
  using assms by (auto simp: lineup_problem_def split: sum.splits)

lemma lineup_feasible:
  assumes p: "lineup_problem selected ep (d, m, f) = Inr prob" and fe: "feasible prob a"
  defines "lineup \<equiv> filter (\<lambda>p. a (Select2 (pid p)) = 1) selected"
  shows "length lineup = 11" and "count_pos 1 lineup = 1" and "count_pos 2 lineup = d"
    and "count_pos 3 lineup = m" and "count_pos 4 lineup = f"
proof -
  note parts = lineup_problem_parts [OF p]
  have bin: "binary_on a (\<lambda>p. Select2 (pid p)) selected"
    using fe by (intro in_category_binary) (auto simp: dict_keys_set feasible_def parts)
  have c: "list_all (holds a) (lineup_constraints selected (d, m, f))"
    using fe by (simp add: feasible_def parts)
  note c' = c [unfolded lineup_constraints_holds]
  from c' show "length lineup = 11"
    by (simp add: binary_count [OF bin] lineup_def)
  from c' show "count_pos 1 lineup = 1" "count_pos 2 lineup = d" "count_pos 3 lineup = m"
    "count_pos 4 lineup = f"
    by (simp_all add: binary_count [OF binary_on_filter [OF bin]] lineup_def count_pos_def
        conj_commute)
qed

lemma hd_insort_key:
  "hd (insort_key f x ys) = (if ys = [] \<or> f x \<le> f (hd ys) then x else hd ys)"
  by (cases ys) auto

lemma insort_key_not_Nil: "insort_key f x ys \<noteq> []"
  by (cases ys) auto

lemma hd_sorted_desc_max_from: "hd (sorted_desc ep_key (m # ps)) = max_from m ps"
proof (induction ps arbitrary: m)
  case Nil
  then show ?case by (simp add: sorted_desc_def)
next
  case (Cons p ps)
  let ?f = "\<lambda>x. - ep_key x"
  let ?S = "sort_key ?f ps"
  let ?m' = "if ep_key m < ep_key p then p else m"
  have "hd (insort_key ?f m (insort_key ?f p ?S)) = hd (insort_key ?f ?m' ?S)"
    by (auto simp add: hd_insort_key insort_key_not_Nil)
  also have "\<dots> = max_from ?m' ps"
    using Cons.IH [of ?m'] by (simp add: sorted_desc_def)
  finally show ?case by (simp add: sorted_desc_def)
qed

lemma max_from_in: "max_from m ps \<in> set (m # ps)"
  by (induction ps arbitrary: m) auto

lemma max_from_mono: "ep_key m \<le> ep_key (max_from m ps)"
proof (induction ps arbitrary: m)
  case Nil
  then show ?case by simp
next
  case (Cons q qs)
  have "ep_key m \<le> ep_key (if ep_key m < ep_key q then q else m)" by simp
  also have "\<dots> \<le> ep_key (max_from (if ep_key m < ep_key q then q else m) qs)"
    by (rule Cons.IH)
  finally show ?case by simp
qed

lemma max_from_ge: "p \<in> set (m # ps) \<Longrightarrow> ep_key p \<le> ep_key (max_from m ps)"
proof (induction ps arbitrary: m)
  case Nil
  then show ?case by simp
next
  case (Cons q qs)
  let ?m' = "if ep_key m < ep_key q then q else m"
  from Cons.prems consider "p = m" | "p = q" | "p \<in> set qs" by auto
  then show ?case
  proof cases
    case 1
    have "ep_key m \<le> ep_key ?m'" by simp
    also have "\<dots> \<le> ep_key (max_from ?m' qs)" by (rule max_from_mono)
    finally show ?thesis using 1 by simp
  next
    case 2
    have "ep_key q \<le> ep_key ?m'" by simp
    also have "\<dots> \<le> ep_key (max_from ?m' qs)" by (rule max_from_mono)
    finally show ?thesis using 2 by simp
  next
    case 3
    then show ?thesis using Cons.IH [of ?m'] by simp
  qed
qed

lemma captain_and_vice:
  assumes d: "distinct xs" and n: "1 < length xs" and c: "py_max xs = Inr c"
  defines "v \<equiv> sorted_desc ep_key xs ! 1"
  shows "c \<in> set xs" and "v \<in> set xs" and "c \<noteq> v" and "ep_key v \<le> ep_key c"
    and "\<forall>p\<in>set xs. p \<noteq> c \<and> p \<noteq> v \<longrightarrow> ep_key p \<le> ep_key v"
proof -
  let ?ys = "sorted_desc ep_key xs"
  obtain m ps where xs: "xs = m # ps" using n by (cases xs) auto
  have cm: "c = max_from m ps" using c by (simp add: py_max_def xs)
  have len: "length ?ys = length xs" and st: "set ?ys = set xs" and dy: "distinct ?ys"
    using d by (simp_all add: sorted_desc_def)
  have srt: "sorted (map (\<lambda>x. - ep_key x) ?ys)" by (simp add: sorted_desc_def)
  have ne: "?ys \<noteq> []" using len n by auto
  have c0: "?ys ! 0 = c" using hd_sorted_desc_max_from [of m ps] ne by (simp add: hd_conv_nth xs cm)
  show "c \<in> set xs" using max_from_in [of m ps] by (simp add: cm xs)
  show "v \<in> set xs" using n len st unfolding v_def by (metis nth_mem)
  show "c \<noteq> v" using dy n len c0 unfolding v_def
    by (metis distinct_conv_nth less_trans zero_less_one zero_neq_one)
  show "ep_key v \<le> ep_key c" using max_from_ge [of v m ps] \<open>v \<in> set xs\<close> by (simp add: cm xs)
  show "\<forall>p\<in>set xs. p \<noteq> c \<and> p \<noteq> v \<longrightarrow> ep_key p \<le> ep_key v"
  proof (intro ballI impI)
    fix p assume "p \<in> set xs" and pc: "p \<noteq> c \<and> p \<noteq> v"
    then obtain j where j: "j < length ?ys" "?ys ! j = p"
      using st by (metis in_set_conv_nth)
    with pc c0 have "1 \<le> j" by (cases j) auto
    then have "map (\<lambda>x. - ep_key x) ?ys ! 1 \<le> map (\<lambda>x. - ep_key x) ?ys ! j"
      using srt j(1) by (simp add: sorted_iff_nth_mono)
    then show "ep_key p \<le> ep_key v" using j n len by (simp add: v_def)
  qed
qed

lemma update_best_cases:
  assumes "update_best b fm l t = Inr b'"
  shows "(\<not> best_proj b < t \<and> b' = b) \<or>
         (best_proj b < t \<and> (\<exists>c. py_max l = Inr c \<and> b' = chosen_best fm l t c))"
  using assms by (auto simp: update_best_def chosen_best_def split: if_splits sum.splits)

lemma cand_total_Some:
  "cand_total solve sel ep chip fm = Some t \<longleftrightarrow>
   (\<exists>l. formation_candidate solve sel ep chip fm = Inr (Some (l, t)))"
  by (auto simp: cand_total_def split: sum.splits option.splits)

lemma best_proj_chosen [simp]: "best_proj (chosen_best fm l t c) = t"
  by (simp add: chosen_best_def)

lemma lineup_loop_spec:
  assumes "lineup_loop solve sel ep chip b fms = Inr b'"
  shows "(b' = b \<and> (\<forall>g\<in>set fms. \<forall>t. cand_total solve sel ep chip g = Some t \<longrightarrow> t \<le> best_proj b))
       \<or> (\<exists>pre fm post l t c. fms = pre @ fm # post
             \<and> formation_candidate solve sel ep chip fm = Inr (Some (l, t))
             \<and> best_proj b < t \<and> py_max l = Inr c \<and> b' = chosen_best fm l t c
             \<and> (\<forall>g\<in>set pre. \<forall>t'. cand_total solve sel ep chip g = Some t' \<longrightarrow> t' < t)
             \<and> (\<forall>g\<in>set post. \<forall>t'. cand_total solve sel ep chip g = Some t' \<longrightarrow> t' \<le> t))"
    (is "?keep b fms \<or> ?pick b fms")
  using assms
proof (induction fms arbitrary: b)
  case Nil
  then show ?case by simp
next
  case (Cons fm fms)
  from Cons.prems obtain c0 where c0: "formation_candidate solve sel ep chip fm = Inr c0"
    by (auto split: sum.splits)
  show ?case
  proof (cases c0)
    case None
    with c0 Cons.prems have run: "lineup_loop solve sel ep chip b fms = Inr b'" by simp
    have ct: "cand_total solve sel ep chip fm = None" using c0 None by (simp add: cand_total_def)
    from Cons.IH [OF run] show ?thesis
    proof
      assume "?keep b fms"
      then show ?thesis using ct by simp
    next
      assume "?pick b fms"
      then obtain pre g post l t c where h: "fms = pre @ g # post"
        "formation_candidate solve sel ep chip g = Inr (Some (l, t))"
        "best_proj b < t" "py_max l = Inr c" "b' = chosen_best g l t c"
        "\<forall>g\<in>set pre. \<forall>t'. cand_total solve sel ep chip g = Some t' \<longrightarrow> t' < t"
        "\<forall>g\<in>set post. \<forall>t'. cand_total solve sel ep chip g = Some t' \<longrightarrow> t' \<le> t"
        by blast
      have "fm # fms = (fm # pre) @ g # post" using h(1) by simp
      moreover have "\<forall>g\<in>set (fm # pre). \<forall>t'. cand_total solve sel ep chip g = Some t' \<longrightarrow> t' < t"
        using h(6) ct by simp
      ultimately show ?thesis using h(2-5,7) by blast
    qed
  next
    case (Some lt)
    obtain l t where lt: "lt = (l, t)" by (cases lt)
    have ct: "cand_total solve sel ep chip fm = Some t"
      using c0 Some lt by (simp add: cand_total_def)
    from Cons.prems c0 Some lt obtain b1 where
      u: "update_best b fm l t = Inr b1" and run: "lineup_loop solve sel ep chip b1 fms = Inr b'"
      by (auto split: sum.splits)
    from update_best_cases [OF u] show ?thesis
    proof
      assume k: "\<not> best_proj b < t \<and> b1 = b"
      from Cons.IH [OF run] show ?thesis
      proof
        assume "?keep b1 fms"
        then show ?thesis using k ct by auto
      next
        assume "?pick b1 fms"
        then obtain pre g post l' t' c where h: "fms = pre @ g # post"
          "formation_candidate solve sel ep chip g = Inr (Some (l', t'))"
          "best_proj b1 < t'" "py_max l' = Inr c" "b' = chosen_best g l' t' c"
          "\<forall>g\<in>set pre. \<forall>s. cand_total solve sel ep chip g = Some s \<longrightarrow> s < t'"
          "\<forall>g\<in>set post. \<forall>s. cand_total solve sel ep chip g = Some s \<longrightarrow> s \<le> t'"
          by blast
        have "fm # fms = (fm # pre) @ g # post" using h(1) by simp
        moreover have "\<forall>g\<in>set (fm # pre). \<forall>s. cand_total solve sel ep chip g = Some s \<longrightarrow> s < t'"
          using h(6,3) ct k by auto
        moreover have "best_proj b < t'" using h(3) k by simp
        ultimately show ?thesis using h(2,4,5,7) by blast
      qed
    next
      assume k: "best_proj b < t \<and> (\<exists>c. py_max l = Inr c \<and> b1 = chosen_best fm l t c)"
      then obtain c where c: "py_max l = Inr c" "b1 = chosen_best fm l t c" by blast
      from Cons.IH [OF run] show ?thesis
      proof
        assume "?keep b1 fms"
        then have "b' = chosen_best fm l t c"
          and "\<forall>g\<in>set fms. \<forall>s. cand_total solve sel ep chip g = Some s \<longrightarrow> s \<le> t"
          using c by simp_all
        moreover have "fm # fms = [] @ fm # fms" by simp
        moreover have "\<forall>g\<in>set []. \<forall>s. cand_total solve sel ep chip g = Some s \<longrightarrow> s < t" by simp
        ultimately show ?thesis using k c(1) c0 Some lt by blast
      next
        assume "?pick b1 fms"
        then obtain pre g post l' t' c' where h: "fms = pre @ g # post"
          "formation_candidate solve sel ep chip g = Inr (Some (l', t'))"
          "best_proj b1 < t'" "py_max l' = Inr c'" "b' = chosen_best g l' t' c'"
          "\<forall>g\<in>set pre. \<forall>s. cand_total solve sel ep chip g = Some s \<longrightarrow> s < t'"
          "\<forall>g\<in>set post. \<forall>s. cand_total solve sel ep chip g = Some s \<longrightarrow> s \<le> t'"
          by blast
        have tt: "t < t'" using h(3) c(2) by simp
        have "fm # fms = (fm # pre) @ g # post" using h(1) by simp
        moreover have "\<forall>g\<in>set (fm # pre). \<forall>s. cand_total solve sel ep chip g = Some s \<longrightarrow> s < t'"
          using h(6) ct tt by auto
        moreover have "best_proj b < t'" using tt k by simp
        ultimately show ?thesis using h(2,4,5,7) by blast
      qed
    qed
  qed
qed

lemma fields_okD:
  "fields_ok ep ps \<Longrightarrow> (\<forall>p\<in>set ps. ep (pid p) \<noteq> None) \<and> (\<forall>p\<in>set ps. expected_points p \<noteq> None)"
  by (simp add: fields_ok_def list_all_iff)

lemma formation_candidate_total:
  assumes "fields_ok ep sel"
  shows "\<exists>c. formation_candidate solve sel ep chip fm = Inr c"
proof -
  from fields_okD [OF assms] have e: "\<forall>p\<in>set sel. ep (pid p) \<noteq> None"
    and f: "\<forall>p\<in>set sel. expected_points p \<noteq> None" by simp_all
  from weighted_Inr [OF e] obtain ts where ts: "weighted Select2 ep sel = Inr ts" by blast
  have s: "sum_ep (filter P sel) = Inr (sum_list (map ep_key (filter P sel)))" for P
    using f by (intro sum_ep_Inr) simp
  show ?thesis
    by (simp add: formation_candidate_def lineup_problem_def ts s Let_def split: prod.splits)
qed

lemma formation_candidate_lineup:
  assumes c: "formation_candidate solve sel ep chip (d, m, f) = Inr (Some (l, t))"
    and s: "solver_sound_on solve (lineup_problem sel ep (d, m, f))"
  shows "length l = 11" and "count_pos 1 l = 1" and "count_pos 2 l = d" and "count_pos 3 l = m"
    and "count_pos 4 l = f" and "set l \<subseteq> set sel" and "distinct sel \<Longrightarrow> distinct l"
proof -
  from c obtain prob where p: "lineup_problem sel ep (d, m, f) = Inr prob"
    by (auto simp: formation_candidate_def split: sum.splits)
  from c p have st: "fst (solve prob) = Optimal"
    and l: "l = filter (\<lambda>p. snd (solve prob) (Select2 (pid p)) = 1) sel"
    by (auto simp: formation_candidate_def Let_def split: sum.splits prod.splits if_splits)
  have fe: "feasible prob (snd (solve prob))"
    using s st by (simp add: solver_sound_on_def p split: prod.splits)
  note r = lineup_feasible [OF p fe, folded l]
  show "length l = 11" "count_pos 1 l = 1" "count_pos 2 l = d" "count_pos 3 l = m" "count_pos 4 l = f"
    by (rule r)+
  show "set l \<subseteq> set sel" by (auto simp: l)
  show "distinct sel \<Longrightarrow> distinct l" by (simp add: l)
qed

lemma lineup_loop_keep:
  assumes "fields_ok ep sel"
    and "\<forall>fm\<in>set fms. \<forall>t. cand_total solve sel ep chip fm = Some t \<longrightarrow> t \<le> best_proj b"
  shows "lineup_loop solve sel ep chip b fms = Inr b"
  using assms(2)
proof (induction fms)
  case Nil
  then show ?case by simp
next
  case (Cons fm fms)
  from formation_candidate_total [OF assms(1)] obtain c
    where c: "formation_candidate solve sel ep chip fm = Inr c" by blast
  from Cons.prems have rest: "lineup_loop solve sel ep chip b fms = Inr b"
    by (intro Cons.IH) simp
  show ?case
  proof (cases c)
    case None
    with c rest show ?thesis by simp
  next
    case (Some lt)
    obtain l t where lt: "lt = (l, t)" by (cases lt)
    have "cand_total solve sel ep chip fm = Some t" using c Some lt by (simp add: cand_total_def)
    with Cons.prems have "\<not> best_proj b < t" by auto
    then show ?thesis using c Some lt rest by (simp add: update_best_def)
  qed
qed

lemma lineup_loop_total:
  assumes "fields_ok ep sel"
    and "\<forall>fm\<in>set fms. solver_sound_on solve (lineup_problem sel ep fm)"
  shows "\<exists>b'. lineup_loop solve sel ep chip b fms = Inr b'"
  using assms(2)
proof (induction fms arbitrary: b)
  case Nil
  then show ?case by simp
next
  case (Cons fm fms)
  from formation_candidate_total [OF assms(1)] obtain c
    where c: "formation_candidate solve sel ep chip fm = Inr c" by blast
  have rest: "\<exists>b'. lineup_loop solve sel ep chip b1 fms = Inr b'" for b1
    using Cons.prems by (intro Cons.IH) simp
  show ?case
  proof (cases c)
    case None
    with c rest show ?thesis by simp
  next
    case (Some lt)
    obtain l t where lt: "lt = (l, t)" by (cases lt)
    obtain d m f where fm: "fm = (d, m, f)" by (cases fm)
    have "length l = 11"
      using formation_candidate_lineup(1) [of solve sel ep chip d m f l t] c Some lt fm Cons.prems
      by simp
    then obtain x xs where "l = x # xs" by (cases l) auto
    then have "\<exists>b1. update_best b fm l t = Inr b1"
      by (simp add: update_best_def py_max_def)
    then show ?thesis using c Some lt rest by (auto split: sum.splits)
  qed
qed

text \<open>
  Claim C10. When no formation's projected total exceeds 0 (for example when every squad
  member's expected points are 0), \<^verbatim>\<open>optimize_lineup\<close> does not fail: it returns the
  empty lineup, no formation label, the projected total 0 and neither captain nor
  vice-captain. The players are taken to carry their expected points, as they do after
  \<^verbatim>\<open>calculate_expected_points\<close>.
\<close>

theorem lineup_empty_when_no_positive_total:
  assumes "fields_ok ep selected"
    and "\<forall>fm\<in>set formations. \<forall>t. cand_total solve selected ep chip fm = Some t \<longrightarrow> t \<le> 0"
  shows "optimize_lineup solve selected ep chip = Inr ([], None, 0, None, None)"
proof -
  have "lineup_loop solve selected ep chip initial_best formations = Inr initial_best"
    using assms by (intro lineup_loop_keep) (simp_all add: initial_best_def)
  then show ?thesis by (simp add: optimize_lineup_def initial_best_def)
qed

text \<open>
  Claim C5, as the code has it. With distinct player ids and a solver whose optimal
  status comes with an assignment satisfying the submitted problem, what
  \<^verbatim>\<open>optimize_lineup\<close> returns is either the empty result of claim C10 or a lineup of
  exactly 11 members with exactly 1 goalkeeper, whose (defender, midfielder, forward)
  counts are one of the enumerated formations, with a captain and a vice-captain that are
  distinct members of the lineup, the captain's expected points at least the
  vice-captain's, and the vice-captain's at least those of every other member.
\<close>

theorem lineup_invariant:
  assumes d: "distinct (map pid selected)"
    and s: "\<forall>fm\<in>set formations. solver_sound_on solve (lineup_problem selected ep fm)"
    and r: "optimize_lineup solve selected ep chip = Inr (lineup, label, proj, cap, vice)"
  shows "(lineup = [] \<and> label = None \<and> proj = 0 \<and> cap = None \<and> vice = None) \<or>
         (length lineup = 11 \<and> count_pos 1 lineup = 1 \<and>
          (count_pos 2 lineup, count_pos 3 lineup, count_pos 4 lineup) \<in> set formations \<and>
          set lineup \<subseteq> set selected \<and>
          (\<exists>c v. cap = Some c \<and> vice = Some v \<and> c \<in> set lineup \<and> v \<in> set lineup \<and> c \<noteq> v \<and>
                 ep_key v \<le> ep_key c \<and>
                 (\<forall>p\<in>set lineup. p \<noteq> c \<and> p \<noteq> v \<longrightarrow> ep_key p \<le> ep_key v)))"
proof -
  from r obtain b where run: "lineup_loop solve selected ep chip initial_best formations = Inr b"
    and b: "lineup = best_lineup b" "label = best_form b" "proj = best_proj b"
      "cap = best_captain b" "vice = best_vice b"
    by (auto simp: optimize_lineup_def split: sum.splits)
  from lineup_loop_spec [OF run] show ?thesis
  proof
    assume "b = initial_best \<and>
      (\<forall>g\<in>set formations. \<forall>t. cand_total solve selected ep chip g = Some t \<longrightarrow> t \<le> best_proj initial_best)"
    then show ?thesis using b by (simp add: initial_best_def)
  next
    assume "\<exists>pre fm post l t c. formations = pre @ fm # post
             \<and> formation_candidate solve selected ep chip fm = Inr (Some (l, t))
             \<and> best_proj initial_best < t \<and> py_max l = Inr c \<and> b = chosen_best fm l t c
             \<and> (\<forall>g\<in>set pre. \<forall>t'. cand_total solve selected ep chip g = Some t' \<longrightarrow> t' < t)
             \<and> (\<forall>g\<in>set post. \<forall>t'. cand_total solve selected ep chip g = Some t' \<longrightarrow> t' \<le> t)"
    then obtain pre fm post l t c where h: "formations = pre @ fm # post"
      "formation_candidate solve selected ep chip fm = Inr (Some (l, t))"
      "py_max l = Inr c" "b = chosen_best fm l t c"
      by blast
    obtain dc mc fc where fm: "fm = (dc, mc, fc)" by (cases fm)
    have mem: "fm \<in> set formations" by (subst h(1)) simp
    note cl = formation_candidate_lineup [OF h(2) [unfolded fm] s [rule_format, OF mem, unfolded fm]]
    have dl: "distinct l" using cl(7) d by (simp add: distinct_map)
    have n: "1 < length l" using cl(1) by simp
    note cv = captain_and_vice [OF dl n h(3)]
    have l: "lineup = l" and c: "cap = Some c" and v: "vice = Some (sorted_desc ep_key l ! 1)"
      using b h(4) n by (simp_all add: chosen_best_def)
    have "(count_pos 2 lineup, count_pos 3 lineup, count_pos 4 lineup) \<in> set formations"
      using cl(3-5) mem by (simp add: l fm)
    then show ?thesis using cl(1,2,6) cv c v by (simp add: l)
  qed
qed

text \<open>
  Claim C8, as the code has it. Provided some formation's projected total exceeds 0,
  \<^verbatim>\<open>optimize_lineup\<close> returns the label, lineup and projected total of a formation of the
  enumeration such that every formation before it has a strictly smaller projected total
  and every formation after it has one that is at most as large: the highest total wins
  and, of equal totals, the first in enumeration order. Formations for which the solver
  reports no optimal status have no projected total and are skipped.
\<close>

theorem best_formation_first_maximum:
  assumes f: "fields_ok ep selected"
    and s: "\<forall>fm\<in>set formations. solver_sound_on solve (lineup_problem selected ep fm)"
    and pos: "\<exists>g\<in>set formations. \<exists>t. cand_total solve selected ep chip g = Some t \<and> 0 < t"
  shows "\<exists>pre fm post lineup proj cap vice.
           formations = pre @ fm # post \<and>
           optimize_lineup solve selected ep chip
             = Inr (lineup, Some (formation_label fm), proj, cap, vice) \<and>
           formation_candidate solve selected ep chip fm = Inr (Some (lineup, proj)) \<and>
           (\<forall>g\<in>set pre. \<forall>t. cand_total solve selected ep chip g = Some t \<longrightarrow> t < proj) \<and>
           (\<forall>g\<in>set post. \<forall>t. cand_total solve selected ep chip g = Some t \<longrightarrow> t \<le> proj)"
proof -
  from lineup_loop_total [OF f s] obtain b
    where run: "lineup_loop solve selected ep chip initial_best formations = Inr b" by blast
  from lineup_loop_spec [OF run] show ?thesis
  proof
    assume "b = initial_best \<and>
      (\<forall>g\<in>set formations. \<forall>t. cand_total solve selected ep chip g = Some t \<longrightarrow> t \<le> best_proj initial_best)"
    with pos have False by (fastforce simp: initial_best_def)
    then show ?thesis ..
  next
    assume "\<exists>pre fm post l t c. formations = pre @ fm # post
             \<and> formation_candidate solve selected ep chip fm = Inr (Some (l, t))
             \<and> best_proj initial_best < t \<and> py_max l = Inr c \<and> b = chosen_best fm l t c
             \<and> (\<forall>g\<in>set pre. \<forall>t'. cand_total solve selected ep chip g = Some t' \<longrightarrow> t' < t)
             \<and> (\<forall>g\<in>set post. \<forall>t'. cand_total solve selected ep chip g = Some t' \<longrightarrow> t' \<le> t)"
    then obtain pre fm post l t c where h: "formations = pre @ fm # post"
      "formation_candidate solve selected ep chip fm = Inr (Some (l, t))"
      "b = chosen_best fm l t c"
      "\<forall>g\<in>set pre. \<forall>t'. cand_total solve selected ep chip g = Some t' \<longrightarrow> t' < t"
      "\<forall>g\<in>set post. \<forall>t'. cand_total solve selected ep chip g = Some t' \<longrightarrow> t' \<le> t"
      by blast
    have "optimize_lineup solve selected ep chip
            = Inr (l, Some (formation_label fm), t, best_captain b, best_vice b)"
      using run h(3) by (simp add: optimize_lineup_def chosen_best_def)
    with h show ?thesis by blast
  qed
qed

lemma toy_solve_list_sound: "solver_sound_on (toy_solve_list proposals) r"
proof (cases r)
  case (Inl e)
  then show ?thesis by (simp add: solver_sound_on_def)
next
  case (Inr prob)
  show ?thesis
  proof (cases "filter (feasible prob) proposals")
    case Nil
    then show ?thesis by (simp add: solver_sound_on_def Inr toy_solve_list_def)
  next
    case (Cons a as)
    then have "feasible prob a" by (metis Cons_eq_filterD)
    then show ?thesis by (simp add: solver_sound_on_def Inr toy_solve_list_def Cons)
  qed
qed

lemma insort_key_map:
  "insort_key f (k x) (map k ys) = map k (insort_key (\<lambda>y. f (k y)) x ys)"
  by (induction ys) auto

lemma sort_key_map: "sort_key f (map k xs) = map k (sort_key (\<lambda>y. f (k y)) xs)"
  by (induction xs) (simp_all add: insort_key_map)

lemma triple_captain_projection:
  assumes c: "formation_candidate solve sel ep (Some TripleCaptain) fm = Inr (Some (l, t))"
    and m: "py_max l = Inr cap"
  shows "t = sum_list (map ep_key l) + 3 * ep_key cap"
proof -
  obtain x xs where l: "l = x # xs" using m by (cases l) (auto simp: py_max_def)
  have cap: "cap = max_from x xs" using m by (simp add: py_max_def l)
  have "sorted_desc (\<lambda>v. v) (map ep_key l) = map ep_key (sorted_desc ep_key l)"
    by (simp add: sorted_desc_def sort_key_map)
  moreover have "sorted_desc ep_key l \<noteq> []"
    by (simp add: sorted_desc_def l insort_key_not_Nil)
  ultimately have h: "sorted_desc (\<lambda>v. v) (map ep_key l) \<noteq> []"
    "hd (sorted_desc (\<lambda>v. v) (map ep_key l)) = ep_key cap"
    using hd_sorted_desc_max_from [of x xs] by (simp_all add: hd_map l cap)
  from c obtain s where "sum_ep l = Inr s"
    and t: "t = s + (if sorted_desc (\<lambda>v. v) (map ep_key l) \<noteq> []
                     then hd (sorted_desc (\<lambda>v. v) (map ep_key l)) * 3 else 0)"
    by (auto simp: formation_candidate_def Let_def split: sum.splits prod.splits if_splits)
  then have "s = sum_list (map ep_key l)" using sum_ep_InrD by blast
  with t h show ?thesis by simp
qed

lemma squad15_fields: "fields_ok (ep_of_fields squad15) squad15"
  by code_simp

lemma squad15_lineup_run:
  "optimize_lineup (toy_solve_list top_lineups) squad15 (ep_of_fields squad15) None
     = Inr (lineup_352, Some ''3-5-2'', 82, Some (mk_player 8 3 1 9), Some (mk_player 13 4 3 8))"
  by code_simp

text \<open>
  Claim C1 says that under the triple-captain chip the top scorer's expected points are
  counted three times in the projected total. The code adds a bonus of three times the top
  value to a lineup sum that already holds it once, as \<open>triple_captain_projection\<close> shows
  in general; on the pool \<open>squad15\<close> the lineup sum is 64, the top value 9, and the
  projected total returned is 91 = 64 + 3 * 9 and not 82 = 64 + 2 * 9.
\<close>

theorem triple_captain_counts_top_scorer_four_times:
  "optimize_lineup (toy_solve_list top_lineups) squad15 (ep_of_fields squad15) (Some TripleCaptain)
     = Inr (lineup_352, Some ''3-5-2'', 91, Some (mk_player 8 3 1 9), Some (mk_player 13 4 3 8)) \<and>
   sum_ep lineup_352 = Inr 64 \<and> ep_key (mk_player 8 3 1 9) = 9 \<and>
   (91::rat) = 64 + 3 * 9 \<and> (91::rat) \<noteq> 64 + 2 * 9"
  by code_simp

lemma zero_run:
  "optimize_lineup (toy_solve_list top_lineups) (zero_points squad15)
     (ep_of_fields (zero_points squad15)) None = Inr ([], None, 0, None, None)"
  by code_simp

lemma zero_totals:
  "map (cand_total (toy_solve_list top_lineups) (zero_points squad15)
          (ep_of_fields (zero_points squad15)) None) formations
     = [Some 0, Some 0, Some 0, Some 0, Some 0, Some 0, Some 0]"
  by code_simp

lemma zero_fields: "fields_ok (ep_of_fields (zero_points squad15)) (zero_points squad15)"
  by code_simp

theorem lineup_empty_when_no_positive_total_witness:
  "fields_ok (ep_of_fields (zero_points squad15)) (zero_points squad15) \<and>
   map (cand_total (toy_solve_list top_lineups) (zero_points squad15)
          (ep_of_fields (zero_points squad15)) None) formations
     = [Some 0, Some 0, Some 0, Some 0, Some 0, Some 0, Some 0] \<and>
   optimize_lineup (toy_solve_list top_lineups) (zero_points squad15)
     (ep_of_fields (zero_points squad15)) None = Inr ([], None, 0, None, None)"
proof -
  have "\<forall>fm\<in>set formations. \<forall>t. cand_total (toy_solve_list top_lineups) (zero_points squad15)
          (ep_of_fields (zero_points squad15)) None fm = Some t \<longrightarrow> t \<le> 0"
  proof (intro ballI allI impI)
    fix fm t assume "fm \<in> set formations"
      and t: "cand_total (toy_solve_list top_lineups) (zero_points squad15)
                (ep_of_fields (zero_points squad15)) None fm = Some t"
    then have "Some t \<in> set (map (cand_total (toy_solve_list top_lineups) (zero_points squad15)
          (ep_of_fields (zero_points squad15)) None) formations)"
      by (metis image_eqI list.set_map)
    then show "t \<le> 0" by (simp add: zero_totals)
  qed
  from lineup_empty_when_no_positive_total [OF zero_fields this] show ?thesis
    using zero_fields zero_totals by simp
qed

lemma squad15_distinct: "distinct (map pid squad15)"
  by code_simp

lemma toy_solve_list_sound_all:
  "list_all (\<lambda>fm. solver_sound_on (toy_solve_list proposals) (lineup_problem sel ep fm)) fms"
  by (simp add: list_all_iff toy_solve_list_sound)

lemma lineup_352_facts:
  "lineup_352 \<noteq> []" "mk_player 8 3 1 9 \<noteq> mk_player 13 4 3 8"
  by code_simp+

theorem lineup_invariant_witness:
  "distinct (map pid squad15) \<and>
   list_all (\<lambda>fm. solver_sound_on (toy_solve_list top_lineups)
               (lineup_problem squad15 (ep_of_fields squad15) fm)) formations \<and>
   optimize_lineup (toy_solve_list top_lineups) squad15 (ep_of_fields squad15) None
     = Inr (lineup_352, Some ''3-5-2'', 82, Some (mk_player 8 3 1 9), Some (mk_player 13 4 3 8)) \<and>
   length lineup_352 = 11 \<and> count_pos 1 lineup_352 = 1 \<and>
   (count_pos 2 lineup_352, count_pos 3 lineup_352, count_pos 4 lineup_352) \<in> set formations \<and>
   mk_player 8 3 1 9 \<in> set lineup_352 \<and> mk_player 13 4 3 8 \<in> set lineup_352 \<and>
   ep_key (mk_player 13 4 3 8) \<le> ep_key (mk_player 8 3 1 9) \<and>
   list_all (\<lambda>p. p = mk_player 8 3 1 9 \<or> p = mk_player 13 4 3 8
                 \<or> ep_key p \<le> ep_key (mk_player 13 4 3 8)) lineup_352"
proof -
  have s: "\<forall>fm\<in>set formations. solver_sound_on (toy_solve_list top_lineups)
             (lineup_problem squad15 (ep_of_fields squad15) fm)"
    by (simp add: toy_solve_list_sound)
  from lineup_invariant [OF squad15_distinct s squad15_lineup_run] lineup_352_facts
  have "length lineup_352 = 11 \<and> count_pos 1 lineup_352 = 1 \<and>
          (count_pos 2 lineup_352, count_pos 3 lineup_352, count_pos 4 lineup_352) \<in> set formations \<and>
          mk_player 8 3 1 9 \<in> set lineup_352 \<and> mk_player 13 4 3 8 \<in> set lineup_352 \<and>
          ep_key (mk_player 13 4 3 8) \<le> ep_key (mk_player 8 3 1 9) \<and>
          (\<forall>p\<in>set lineup_352. p \<noteq> mk_player 8 3 1 9 \<and> p \<noteq> mk_player 13 4 3 8
              \<longrightarrow> ep_key p \<le> ep_key (mk_player 13 4 3 8))"
    by simp
  then show ?thesis
    using squad15_distinct squad15_lineup_run toy_solve_list_sound_all
    by (auto simp: list_all_iff)
qed

lemma weighted_zero:
  "weighted x ep ps = Inr ts \<Longrightarrow> \<forall>p\<in>set ps. ep (pid p) = Some 0 \<Longrightarrow> lp_eval a (lpSum ts) = 0"
proof (induction ps arbitrary: ts)
  case Nil
  then show ?case by (simp add: lpSum_def)
next
  case (Cons p ps)
  then obtain ts' where "weighted x ep ps = Inr ts'" "ts = LScale 0 (LVar (x (pid p))) # ts'"
    by (auto split: option.splits sum.splits)
  with Cons show ?case by (simp add: lp_eval_lpSum)
qed

lemma zero_lineup_optimal:
  assumes z: "\<forall>p\<in>set sel. ep (pid p) = Some 0"
  shows "solver_optimal_on (toy_solve_list proposals) (lineup_problem sel ep fm)"
proof (cases "lineup_problem sel ep fm")
  case (Inl e)
  then show ?thesis by (simp add: solver_optimal_on_def)
next
  case (Inr prob)
  then obtain ts where ts: "weighted Select2 ep sel = Inr ts" and obj: "objective prob = lpSum ts"
    by (auto simp: lineup_problem_def split: sum.splits)
  have zero: "lp_eval a (objective prob) = 0" for a
    using weighted_zero [OF ts z] by (simp add: obj)
  show ?thesis
  proof (cases "filter (feasible prob) proposals")
    case Nil
    then show ?thesis by (simp add: solver_optimal_on_def Inr toy_solve_list_def)
  next
    case (Cons a as)
    then have "feasible prob a" by (metis Cons_eq_filterD)
    then have "optimal prob a" by (simp add: optimal_def zero)
    then show ?thesis by (simp add: solver_optimal_on_def Inr toy_solve_list_def Cons)
  qed
qed

lemma zero_points_ep:
  "list_all (\<lambda>p. ep_of_fields (zero_points squad15) (pid p) = Some 0) (zero_points squad15)"
  by code_simp

lemma zero_points_optimal:
  "list_all (\<lambda>fm. solver_optimal_on (toy_solve_list top_lineups)
               (lineup_problem (zero_points squad15) (ep_of_fields (zero_points squad15)) fm))
     formations"
  using zero_points_ep by (simp add: list_all_iff zero_lineup_optimal)

lemma zero_points_distinct: "distinct (map pid (zero_points squad15))"
  by code_simp

text \<open>
  Claim C5 as stated fails when every player's expected points are 0: each formation's
  projected total is 0, none exceeds the initial 0, and the lineup returned has no member.
\<close>

theorem lineup_eleven_counterexample:
  "distinct (map pid (zero_points squad15)) \<and>
   list_all (\<lambda>fm. solver_optimal_on (toy_solve_list top_lineups)
               (lineup_problem (zero_points squad15) (ep_of_fields (zero_points squad15)) fm))
     formations \<and>
   optimize_lineup (toy_solve_list top_lineups) (zero_points squad15)
     (ep_of_fields (zero_points squad15)) None = Inr ([], None, 0, None, None) \<and>
   length ([] :: player list) \<noteq> 11"
  using zero_points_distinct zero_points_optimal zero_run by simp

lemma squad15_totals:
  "map (cand_total (toy_solve_list top_lineups) squad15 (ep_of_fields squad15) None) formations
     = [Some 82, Some 81, Some 81, Some 79, Some 79, Some 77, Some 78]"
  by code_simp

lemma formations_352: "formation_label (3, 5, 2) = ''3-5-2''" "hd formations = (3, 5, 2)"
  by code_simp+

theorem best_formation_first_maximum_witness:
  "fields_ok (ep_of_fields squad15) squad15 \<and>
   list_all (\<lambda>fm. solver_sound_on (toy_solve_list top_lineups)
               (lineup_problem squad15 (ep_of_fields squad15) fm)) formations \<and>
   map (cand_total (toy_solve_list top_lineups) squad15 (ep_of_fields squad15) None) formations
     = [Some 82, Some 81, Some 81, Some 79, Some 79, Some 77, Some 78] \<and>
   (\<exists>pre fm post lineup proj cap vice.
      formations = pre @ fm # post \<and>
      optimize_lineup (toy_solve_list top_lineups) squad15 (ep_of_fields squad15) None
        = Inr (lineup, Some (formation_label fm), proj, cap, vice) \<and>
      formation_candidate (toy_solve_list top_lineups) squad15 (ep_of_fields squad15) None fm
        = Inr (Some (lineup, proj)) \<and>
      (\<forall>g\<in>set pre. \<forall>t. cand_total (toy_solve_list top_lineups) squad15 (ep_of_fields squad15) None g
          = Some t \<longrightarrow> t < proj) \<and>
      (\<forall>g\<in>set post. \<forall>t. cand_total (toy_solve_list top_lineups) squad15 (ep_of_fields squad15) None g
          = Some t \<longrightarrow> t \<le> proj))"
proof -
  have s: "\<forall>fm\<in>set formations. solver_sound_on (toy_solve_list top_lineups)
             (lineup_problem squad15 (ep_of_fields squad15) fm)"
    by (simp add: toy_solve_list_sound)
  have "cand_total (toy_solve_list top_lineups) squad15 (ep_of_fields squad15) None (3, 5, 2) = Some 82"
    by code_simp
  moreover have "(3, 5, 2) \<in> set formations" by (simp add: formations_def)
  ultimately have pos: "\<exists>g\<in>set formations. \<exists>t.
      cand_total (toy_solve_list top_lineups) squad15 (ep_of_fields squad15) None g = Some t \<and> 0 < t"
    by (intro bexI [of _ "(3, 5, 2)"] exI [of _ 82]) simp_all
  from best_formation_first_maximum [OF squad15_fields s pos] show ?thesis
    using squad15_fields toy_solve_list_sound_all squad15_totals by simp
qed

lemma zero_run_bench:
  "optimize_lineup (toy_solve_list top_lineups) (zero_points squad15)
     (ep_of_fields (zero_points squad15)) (Some BenchBoost) = Inr ([], None, 0, None, None)"
  by code_simp

lemma zero_totals_bench:
  "map (cand_total (toy_solve_list top_lineups) (zero_points squad15)
          (ep_of_fields (zero_points squad15)) (Some BenchBoost)) formations
     = [Some 0, Some 0, Some 0, Some 0, Some 0, Some 0, Some 0]"
  by code_simp

text \<open>
  Claim C8 as stated fails on the same pool (here with the bench-boost chip): all seven
  formations have the projected total 0, the first of them is 3-5-2, and no formation is
  returned.
\<close>

theorem best_formation_counterexample:
  "list_all (\<lambda>fm. solver_optimal_on (toy_solve_list top_lineups)
               (lineup_problem (zero_points squad15) (ep_of_fields (zero_points squad15)) fm))
     formations \<and>
   map (cand_total (toy_solve_list top_lineups) (zero_points squad15)
          (ep_of_fields (zero_points squad15)) (Some BenchBoost)) formations
     = [Some 0, Some 0, Some 0, Some 0, Some 0, Some 0, Some 0] \<and>
   optimize_lineup (toy_solve_list top_lineups) (zero_points squad15)
     (ep_of_fields (zero_points squad15)) (Some BenchBoost) = Inr ([], None, 0, None, None)"
  using zero_points_optimal zero_totals_bench zero_run_bench by simp

section \<open>The expected-points model\<close>

lemma exp_loop_spec:
  assumes "exp_loop avg ts tf ep0 ps = Inr (ep, ps')"
    and "distinct (map pid ps)" and "\<forall>q\<in>set ps. ep0 (pid q) = None"
  shows "(\<forall>q\<in>set ps. player_exp avg ts tf q = Inr (ep (pid q))) \<and>
         (\<forall>i. i \<notin> pid ` set ps \<longrightarrow> ep i = ep0 i) \<and>
         ps' = map (set_expected ep) ps"
  using assms
proof (induction ps arbitrary: ep0 ep ps')
  case Nil
  then show ?case by simp
next
  case (Cons p ps)
  from Cons.prems(1) obtain r where r: "player_exp avg ts tf p = Inr r"
    by (auto split: sum.splits)
  have notin: "pid p \<notin> pid ` set ps" and d: "distinct (map pid ps)"
    using Cons.prems(2) by auto
  have neq: "\<forall>q\<in>set ps. pid q \<noteq> pid p"
    by (metis notin image_eqI)
  show ?case
  proof (cases r)
    case None
    with r Cons.prems(1) obtain ps'' where
      run: "exp_loop avg ts tf ep0 ps = Inr (ep, ps'')" and p': "ps' = p # ps''"
      by (auto split: sum.splits prod.splits)
    have z: "\<forall>q\<in>set ps. ep0 (pid q) = None" using Cons.prems(3) by simp
    note ih = Cons.IH [OF run d z]
    have "ep (pid p) = None" using ih notin Cons.prems(3) by simp
    then show ?thesis using ih r None p' neq by (simp add: set_expected_def)
  next
    case (Some v)
    with r Cons.prems(1) obtain ps'' where
      run: "exp_loop avg ts tf (ep0(pid p \<mapsto> v)) ps = Inr (ep, ps'')"
      and p': "ps' = p\<lparr>expected_points := Some v\<rparr> # ps''"
      by (auto split: sum.splits prod.splits)
    have z: "\<forall>q\<in>set ps. (ep0(pid p \<mapsto> v)) (pid q) = None"
      using Cons.prems(3) neq by simp
    note ih = Cons.IH [OF run d z]
    have "ep (pid p) = Some v" using ih notin by simp
    then show ?thesis using ih r Some p' neq by (simp add: set_expected_def)
  qed
qed

lemma calculate_expected_points_spec:
  assumes "calculate_expected_points players teams tf = Inr (ep, players')"
    and "distinct (map pid players)"
  shows "\<exists>avg. avg_strength teams = Inr avg \<and>
           (\<forall>q\<in>set players. player_exp avg (team_strength teams) tf q = Inr (ep (pid q))) \<and>
           dom ep \<subseteq> pid ` set players \<and>
           players' = map (set_expected ep) players"
proof -
  from assms(1) obtain avg where a: "avg_strength teams = Inr avg"
    and run: "exp_loop avg (team_strength teams) tf Map.empty players = Inr (ep, players')"
    by (auto simp: calculate_expected_points_def split: sum.splits)
  from exp_loop_spec [OF run assms(2)] have
    "(\<forall>q\<in>set players. player_exp avg (team_strength teams) tf q = Inr (ep (pid q)))"
    "\<forall>i. i \<notin> pid ` set players \<longrightarrow> ep i = None" "players' = map (set_expected ep) players"
    by simp_all
  then show ?thesis using a by (auto simp: dom_def)
qed

lemma pid_set_expected [simp]: "pid (set_expected ep p) = pid p"
  by (simp add: set_expected_def split: option.splits)

lemma set_expected_fields:
  "ep (pid p) \<noteq> None \<Longrightarrow> expected_points (set_expected ep p) = ep (pid p)"
  by (auto simp: set_expected_def)

lemma fields_ok_after:
  "fields_ok ep (avail_players ep (map (set_expected ep) players))"
  by (auto simp: fields_ok_def avail_players_def list_all_iff set_expected_def split: option.splits)

lemma player_exp_excluded:
  "chance_is_zero (chance_of_playing_next_round p) \<or> tf (team p) = None \<or> tf (team p) = Some []
   \<Longrightarrow> player_exp avg ts tf p = Inr None"
  by (auto simp: player_exp_def Let_def)

lemma fix_exp_chance:
  "fix_exp avg ts (p\<lparr>chance_of_playing_next_round := c\<rparr>) fx = fix_exp avg ts p fx"
  by (simp add: fix_exp_def base_score_def ict_boost_def Let_def)

lemma sum_fixes_chance:
  "sum_fixes avg ts (p\<lparr>chance_of_playing_next_round := c\<rparr>) acc fxs = sum_fixes avg ts p acc fxs"
  by (induction fxs arbitrary: acc) (simp_all add: fix_exp_chance split: sum.splits)

lemma player_exp_null:
  "chance_of_playing_next_round p = ChanceNull \<Longrightarrow>
   player_exp avg ts tf (p\<lparr>chance_of_playing_next_round := ChanceNum 100\<rparr>) = player_exp avg ts tf p"
  by (simp add: player_exp_def sum_fixes_chance Let_def split: sum.splits)

lemma squad_selection_subset: "set (squad_selection avail csp chip a) \<subseteq> set avail \<union> set csp"
  by (auto simp: squad_selection_def)

lemma current_squad_players_subset: "set (current_squad_players avail cs) \<subseteq> set avail"
proof (induction avail cs rule: current_squad_players.induct)
  case (3 avail i es)
  show ?case
  proof (cases "filter (\<lambda>p. pid p = i) avail")
    case Nil
    with 3 show ?thesis by simp
  next
    case (Cons m ms)
    then have "m \<in> set avail" by (metis Cons_eq_filterD in_set_conv_decomp)
    with 3 Cons show ?thesis by simp
  qed
qed simp_all

lemma optimize_squad_subset:
  assumes "optimize_squad solve players ep cs ft chip = Inr (selected, tc, se)"
  shows "set selected \<subseteq> set (avail_players ep players)"
proof -
  from assms obtain prob where
    "selected = squad_selection (avail_players ep players)
           (current_squad_players (avail_players ep players) cs) chip (snd (solve prob))"
    by (rule optimize_squad_Inr)
  then show ?thesis
    using squad_selection_subset current_squad_players_subset by fastforce
qed

lemma lineup_loop_subset:
  assumes "lineup_loop solve sel ep chip b fms = Inr b'" and "set (best_lineup b) \<subseteq> set sel"
  shows "set (best_lineup b') \<subseteq> set sel"
proof -
  from lineup_loop_spec [OF assms(1)] show ?thesis
  proof
    assume "b' = b \<and> (\<forall>g\<in>set fms. \<forall>t. cand_total solve sel ep chip g = Some t \<longrightarrow> t \<le> best_proj b)"
    then show ?thesis using assms(2) by simp
  next
    assume "\<exists>pre fm post l t c. fms = pre @ fm # post
             \<and> formation_candidate solve sel ep chip fm = Inr (Some (l, t))
             \<and> best_proj b < t \<and> py_max l = Inr c \<and> b' = chosen_best fm l t c
             \<and> (\<forall>g\<in>set pre. \<forall>t'. cand_total solve sel ep chip g = Some t' \<longrightarrow> t' < t)
             \<and> (\<forall>g\<in>set post. \<forall>t'. cand_total solve sel ep chip g = Some t' \<longrightarrow> t' \<le> t)"
    then obtain fm l t c where c: "formation_candidate solve sel ep chip fm = Inr (Some (l, t))"
      and b': "b' = chosen_best fm l t c" by blast
    from c have "set l \<subseteq> set sel"
      by (auto simp: formation_candidate_def Let_def split: sum.splits prod.splits if_splits)
    then show ?thesis by (simp add: b' chosen_best_def)
  qed
qed

lemma optimize_lineup_subset:
  assumes "optimize_lineup solve sel ep chip = Inr (lineup, lbl, proj, cap, vice)"
  shows "set lineup \<subseteq> set sel"
proof -
  from assms obtain b where "lineup_loop solve sel ep chip initial_best formations = Inr b"
    and "lineup = best_lineup b"
    by (auto simp: optimize_lineup_def split: sum.splits)
  then show ?thesis using lineup_loop_subset [of solve sel ep chip initial_best formations b]
    by (simp add: initial_best_def)
qed

text \<open>
  Claim C6. With distinct player ids, a player whose availability is exactly 0 or whose
  club has no fixture this round gets no entry in the expected-points map; no player with
  that id is among the available players, in a squad returned by \<^verbatim>\<open>optimize_squad\<close> or
  in a lineup returned by \<^verbatim>\<open>optimize_lineup\<close> for such a squad. A player whose
  availability is null gets the entry that the same player with availability 100 would get.
\<close>

theorem unavailable_players_excluded:
  assumes d: "distinct (map pid players)"
    and c: "calculate_expected_points players teams tf = Inr (ep, players')"
    and p: "p \<in> set players"
    and x: "chance_of_playing_next_round p = ChanceNum 0 \<or> tf (team p) = None \<or> tf (team p) = Some []"
  shows "ep (pid p) = None \<and>
         (\<forall>q\<in>set (avail_players ep players'). pid q \<noteq> pid p) \<and>
         (\<forall>selected tc se. optimize_squad squad_solve players' ep cs ft chip = Inr (selected, tc, se)
            \<longrightarrow> (\<forall>q\<in>set selected. pid q \<noteq> pid p) \<and>
                (\<forall>lineup lbl proj cap vice.
                   optimize_lineup lineup_solve selected ep chip = Inr (lineup, lbl, proj, cap, vice)
                   \<longrightarrow> (\<forall>q\<in>set lineup. pid q \<noteq> pid p))) \<and>
         (\<forall>q\<in>set players. chance_of_playing_next_round q = ChanceNull \<longrightarrow>
            (\<exists>avg. avg_strength teams = Inr avg \<and>
               player_exp avg (team_strength teams) tf
                 (q\<lparr>chance_of_playing_next_round := ChanceNum 100\<rparr>) = Inr (ep (pid q))))"
proof -
  from calculate_expected_points_spec [OF c d] obtain avg where a: "avg_strength teams = Inr avg"
    and e: "\<forall>q\<in>set players. player_exp avg (team_strength teams) tf q = Inr (ep (pid q))"
    by blast
  have "player_exp avg (team_strength teams) tf p = Inr None"
    using x by (intro player_exp_excluded) auto
  with e p have none: "ep (pid p) = None" by auto
  then have av: "\<forall>q\<in>set (avail_players ep players'). pid q \<noteq> pid p"
    by (auto simp: avail_players_def)
  have sq: "\<forall>q\<in>set selected. pid q \<noteq> pid p"
    if "optimize_squad squad_solve players' ep cs ft chip = Inr (selected, tc, se)" for selected tc se
    using optimize_squad_subset [OF that] av by blast
  have ln: "\<forall>q\<in>set lineup. pid q \<noteq> pid p"
    if "optimize_squad squad_solve players' ep cs ft chip = Inr (selected, tc, se)"
      and "optimize_lineup lineup_solve selected ep chip = Inr (lineup, lbl, proj, cap, vice)"
    for selected tc se lineup lbl proj cap vice
    using optimize_lineup_subset [OF that(2)] sq [OF that(1)] by blast
  have nl: "\<exists>avg. avg_strength teams = Inr avg \<and>
               player_exp avg (team_strength teams) tf
                 (q\<lparr>chance_of_playing_next_round := ChanceNum 100\<rparr>) = Inr (ep (pid q))"
    if "q \<in> set players" "chance_of_playing_next_round q = ChanceNull" for q
    using a e that by (auto simp: player_exp_null)
  show ?thesis using none av sq ln nl by blast
qed

lemma empty_fixture_lists_apply:
  "empty_fixture_lists teams k = (if k \<in> club_id ` set teams then Some [] else None)"
  by (induction teams) auto

lemma dom_empty_fixture_lists: "dom (empty_fixture_lists teams) = club_id ` set teams"
  by (auto simp: empty_fixture_lists_apply dom_def)

lemma empty_fixture_lists_known: "opponents_known (empty_fixture_lists teams)"
  by (auto simp: opponents_known_def empty_fixture_lists_apply split: if_splits)

lemma append_fixture_known:
  assumes "append_fixture tf k e = Inr tf'" and "opponents_known tf" and "opp_id e \<in> dom tf"
  shows "opponents_known tf'" and "dom tf' = dom tf" and "k \<in> dom tf"
proof -
  from assms(1) obtain es where es: "tf k = Some es" and tf': "tf' = tf(k \<mapsto> es @ [e])"
    by (auto simp: append_fixture_def split: option.splits)
  show "k \<in> dom tf" using es by (rule domI)
  then show d: "dom tf' = dom tf" by (simp add: tf' insert_absorb)
  show "opponents_known tf'"
    unfolding opponents_known_def
  proof (intro allI impI ballI)
    fix j fs fx assume j: "tf' j = Some fs" and fx: "fx \<in> set fs"
    show "opp_id fx \<in> dom tf'"
    proof (cases "j = k")
      case True
      with j tf' have "fs = es @ [e]" by simp
      with fx have "fx \<in> set es \<or> fx = e" by auto
      then show ?thesis using assms(2,3) es d by (auto simp: opponents_known_def)
    next
      case False
      with j tf' have "tf j = Some fs" by simp
      then show ?thesis using assms(2) fx d by (auto simp: opponents_known_def)
    qed
  qed
qed

lemma append_fixture_dom:
  "append_fixture tf k e = Inr tf' \<Longrightarrow> dom tf' = dom tf \<and> k \<in> dom tf"
proof -
  assume "append_fixture tf k e = Inr tf'"
  then obtain es where es: "tf k = Some es" and tf': "tf' = tf(k \<mapsto> es @ [e])"
    by (auto simp: append_fixture_def split: option.splits)
  have "k \<in> dom tf" using es by (rule domI)
  then show ?thesis by (simp add: tf' insert_absorb)
qed

lemma group_fixtures_known:
  "group_fixtures tf fs = Inr tf' \<Longrightarrow> opponents_known tf \<Longrightarrow> opponents_known tf' \<and> dom tf' = dom tf"
proof (induction fs arbitrary: tf)
  case Nil
  then show ?case by simp
next
  case (Cons f fs)
  from Cons.prems(1) obtain tf1 tf2 where
    a1: "append_fixture tf (team_h f)
           \<lparr>opp_id = team_a f, diff = team_h_difficulty f, home = True\<rparr> = Inr tf1"
    and a2: "append_fixture tf1 (team_a f)
           \<lparr>opp_id = team_h f, diff = team_a_difficulty f, home = False\<rparr> = Inr tf2"
    and run: "group_fixtures tf2 fs = Inr tf'"
    by (auto split: sum.splits)
  from append_fixture_dom [OF a1] have d1: "dom tf1 = dom tf" and h: "team_h f \<in> dom tf" by simp_all
  from append_fixture_dom [OF a2] have d2: "dom tf2 = dom tf1" and a: "team_a f \<in> dom tf1" by simp_all
  have k1: "opponents_known tf1"
    using a d1 by (intro append_fixture_known(1) [OF a1 Cons.prems(2)]) simp
  have k2: "opponents_known tf2"
    using h d1 by (intro append_fixture_known(1) [OF a2 k1]) simp
  from Cons.IH [OF run k2] show ?case using d1 d2 by simp
qed

lemma calculate_team_fixtures_known:
  assumes "calculate_team_fixtures teams fixtures = Inr tf" and "tf k = Some fs" and "fx \<in> set fs"
  shows "opp_id fx \<in> club_id ` set teams"
proof -
  from group_fixtures_known [OF assms(1) [unfolded calculate_team_fixtures_def]
      empty_fixture_lists_known]
  have "opponents_known tf" and "dom tf = club_id ` set teams"
    by (simp_all add: dom_empty_fixture_lists)
  then show ?thesis using assms(2,3) by (auto simp: opponents_known_def)
qed

lemma team_strength_member:
  "distinct (map club_id teams) \<Longrightarrow> t \<in> set teams
   \<Longrightarrow> team_strength teams (club_id t) = Some (strength t)"
proof -
  assume d: "distinct (map club_id teams)" and t: "t \<in> set teams"
  have "distinct (map fst (rev (map (\<lambda>t. (club_id t, strength t)) teams)))"
    using d by (simp add: rev_map [symmetric] o_def)
  moreover have "(club_id t, strength t) \<in> set (rev (map (\<lambda>t. (club_id t, strength t)) teams))"
    using t by auto
  ultimately show ?thesis
    unfolding team_strength_def by (rule map_of_is_SomeI)
qed

lemma find_member:
  "distinct (map club_id teams) \<Longrightarrow> t \<in> set teams \<Longrightarrow> find (\<lambda>u. club_id u = club_id t) teams = Some t"
proof (induction teams)
  case Nil
  then show ?case by simp
next
  case (Cons u us)
  then show ?case by (cases "t = u") (auto simp: image_iff)
qed

lemma fix_exp_spec:
  assumes "distinct (map club_id teams)" and "opp_id fx \<in> club_id ` set teams"
    and "\<forall>t\<in>set teams. strength t \<noteq> 0"
  shows "fix_exp (average_club_strength teams) (team_strength teams) p fx
           = Inr (spec_fixture_points teams p fx)"
proof -
  from assms(2) obtain t where t: "t \<in> set teams" "opp_id fx = club_id t" by auto
  have ts: "team_strength teams (opp_id fx) = Some (strength t)"
    using team_strength_member [OF assms(1) t(1)] by (simp add: t(2))
  have os: "opponent_strength teams (opp_id fx) = of_int (strength t)"
    using find_member [OF assms(1) t(1)] by (simp add: opponent_strength_def t(2))
  have nz: "strength t \<noteq> 0" using assms(3) t(1) by simp
  have b: "base_score p = 6 / 10 * form p + 4 / 10 * points_per_game p"
    by (simp add: base_score_def)
  show ?thesis
    by (simp add: fix_exp_def ts os nz spec_fixture_points_def b ict_boost_def Let_def)
qed

lemma sum_fixes_spec:
  assumes "distinct (map club_id teams)" and "\<forall>fx\<in>set fxs. opp_id fx \<in> club_id ` set teams"
    and "\<forall>t\<in>set teams. strength t \<noteq> 0"
  shows "sum_fixes (average_club_strength teams) (team_strength teams) p acc fxs
           = Inr (acc + sum_list (map (spec_fixture_points teams p) fxs))"
  using assms(2)
proof (induction fxs arbitrary: acc)
  case Nil
  then show ?case by simp
next
  case (Cons fx fxs)
  have "fix_exp (average_club_strength teams) (team_strength teams) p fx
           = Inr (spec_fixture_points teams p fx)"
    using Cons.prems by (intro fix_exp_spec assms) simp
  then show ?case using Cons by (simp add: add.assoc)
qed

lemma chance_factor_availability:
  "chance_factor (chance_of_playing_next_round p) = availability p / 100"
  by (cases "chance_of_playing_next_round p") (simp_all add: availability_def)

lemma avg_strength_spec: "teams \<noteq> [] \<Longrightarrow> avg_strength teams = Inr (average_club_strength teams)"
  by (simp add: avg_strength_def average_club_strength_def)

lemma player_exp_spec:
  assumes "distinct (map club_id teams)" and "\<forall>t\<in>set teams. strength t \<noteq> 0"
    and "calculate_team_fixtures teams fixtures = Inr tf"
  shows "player_exp (average_club_strength teams) (team_strength teams) tf p =
           Inr (case tf (team p) of
                  None \<Rightarrow> None
                | Some fixes \<Rightarrow>
                    if fixes = [] \<or> chance_is_zero (chance_of_playing_next_round p) then None
                    else Some (spec_estimate teams p fixes))"
proof (cases "tf (team p)")
  case None
  then show ?thesis by (simp add: player_exp_def)
next
  case (Some fxs)
  have "\<forall>fx\<in>set fxs. opp_id fx \<in> club_id ` set teams"
    using calculate_team_fixtures_known [OF assms(3) Some] by blast
  from sum_fixes_spec [OF assms(1) this assms(2)] show ?thesis
    by (simp add: player_exp_def Some spec_estimate_def chance_factor_availability)
qed

lemma exp_loop_total:
  assumes "\<forall>q\<in>set ps. \<exists>r. player_exp avg ts tf q = Inr r"
  shows "\<exists>ep ps'. exp_loop avg ts tf ep0 ps = Inr (ep, ps')"
  using assms
proof (induction ps arbitrary: ep0)
  case Nil
  then show ?case by simp
next
  case (Cons p ps)
  then obtain r where r: "player_exp avg ts tf p = Inr r" by auto
  have rest: "\<exists>ep ps'. exp_loop avg ts tf e ps = Inr (ep, ps')" for e
    using Cons by simp
  show ?case
  proof (cases r)
    case None
    with r rest [of ep0] show ?thesis by auto
  next
    case (Some v)
    with r rest [of "ep0(pid p \<mapsto> v)"] show ?thesis by auto
  qed
qed

text \<open>
  Claim C4. Let the fixture lists come from \<^verbatim>\<open>calculate_team_fixtures\<close>, let player ids
  and club ids be distinct, and let there be at least one club and no club of strength 0
  (the divisions of the source are then defined). Then \<^verbatim>\<open>calculate_expected_points\<close>
  returns, and for every player whose club has at least one fixture and whose availability
  is not 0 the estimate, in the map and on the player record, is \<open>spec_estimate\<close>: the
  sum over the club's fixtures of (0.6 form + 0.4 points per game) ((6 - difficulty) / 5)
  (1.2 at home, 0.9 away) (average club strength / opponent strength)
  (1 + ICT index / 100 * 0.2), times availability / 100, rounded to two decimal places.
  The selectors add these values without rounding them again.
\<close>

theorem expected_points_formula:
  assumes dp: "distinct (map pid players)" and dc: "distinct (map club_id teams)"
    and ne: "teams \<noteq> []" and nz: "\<forall>t\<in>set teams. strength t \<noteq> 0"
    and tf: "calculate_team_fixtures teams fixtures = Inr tf"
  shows "\<exists>ep players'.
           calculate_expected_points players teams tf = Inr (ep, players') \<and>
           (\<forall>p\<in>set players. \<forall>fixes.
              tf (team p) = Some fixes \<and> fixes \<noteq> [] \<and> chance_of_playing_next_round p \<noteq> ChanceNum 0
              \<longrightarrow> ep (pid p) = Some (spec_estimate teams p fixes) \<and>
                  (\<exists>p'\<in>set players'. pid p' = pid p \<and>
                     expected_points p' = Some (spec_estimate teams p fixes)))"
proof -
  let ?avg = "average_club_strength teams"
  note pe = player_exp_spec [OF dc nz tf]
  have "\<exists>ep ps'. exp_loop ?avg (team_strength teams) tf Map.empty players = Inr (ep, ps')"
    by (rule exp_loop_total) (simp add: pe)
  then obtain ep players' where
    run: "calculate_expected_points players teams tf = Inr (ep, players')"
    by (auto simp: calculate_expected_points_def avg_strength_spec [OF ne])
  from calculate_expected_points_spec [OF run dp] have
    e: "\<forall>q\<in>set players. player_exp ?avg (team_strength teams) tf q = Inr (ep (pid q))"
    and ps: "players' = map (set_expected ep) players"
    by (simp_all add: avg_strength_spec [OF ne])
  have "ep (pid p) = Some (spec_estimate teams p fxs) \<and>
        (\<exists>p'\<in>set players'. pid p' = pid p \<and> expected_points p' = Some (spec_estimate teams p fxs))"
    if p: "p \<in> set players" and f: "tf (team p) = Some fxs" "fxs \<noteq> []"
      and c: "chance_of_playing_next_round p \<noteq> ChanceNum 0" for p fxs
  proof -
    have "\<not> chance_is_zero (chance_of_playing_next_round p)"
      using c by (cases "chance_of_playing_next_round p") auto
    then have v: "ep (pid p) = Some (spec_estimate teams p fxs)"
      using e p f pe [of p] by simp
    have "set_expected ep p \<in> set players'" using p ps by simp
    moreover have "expected_points (set_expected ep p) = Some (spec_estimate teams p fxs)"
      using v by (simp add: set_expected_def)
    ultimately show ?thesis using v by (intro conjI bexI [of _ "set_expected ep p"]) simp_all
  qed
  then show ?thesis using run by blast
qed

lemma feed_tf_run: "calculate_team_fixtures feed_clubs feed_fixtures = Inr feed_tf"
  by (simp add: calculate_team_fixtures_def feed_clubs_def feed_fixtures_def feed_tf_def
      append_fixture_def fun_eq_iff)

lemma feed_facts:
  "distinct (map pid feed_players)" "distinct (map club_id feed_clubs)" "feed_clubs \<noteq> []"
  "list_all (\<lambda>t. strength t \<noteq> 0) feed_clubs"
  by code_simp+

lemma feed_estimates:
  "spec_estimate feed_clubs (mk_raw 1 3 1 5 4 50 ChanceNull) [\<lparr>opp_id = 2, diff = 2, home = True\<rparr>]
     = 486 / 100"
  "spec_estimate feed_clubs (mk_raw 4 2 2 6 5 0 (ChanceNum 75)) [\<lparr>opp_id = 1, diff = 4, home = False\<rparr>]
     = 202 / 100"
  by code_simp+

theorem expected_points_formula_witness:
  "distinct (map pid feed_players) \<and> distinct (map club_id feed_clubs) \<and> feed_clubs \<noteq> [] \<and>
   list_all (\<lambda>t. strength t \<noteq> 0) feed_clubs \<and>
   calculate_team_fixtures feed_clubs feed_fixtures = Inr feed_tf \<and>
   (\<exists>ep players'. calculate_expected_points feed_players feed_clubs feed_tf = Inr (ep, players') \<and>
      ep 1 = Some (486 / 100) \<and> ep 4 = Some (202 / 100))"
proof -
  have nz: "\<forall>t\<in>set feed_clubs. strength t \<noteq> 0"
    using feed_facts(4) by (simp add: list_all_iff)
  from expected_points_formula [OF feed_facts(1,2,3) nz feed_tf_run]
  obtain ep players' where
    run: "calculate_expected_points feed_players feed_clubs feed_tf = Inr (ep, players')"
    and f: "\<forall>p\<in>set feed_players. \<forall>fixes.
              feed_tf (team p) = Some fixes \<and> fixes \<noteq> [] \<and> chance_of_playing_next_round p \<noteq> ChanceNum 0
              \<longrightarrow> ep (pid p) = Some (spec_estimate feed_clubs p fixes) \<and>
                  (\<exists>p'\<in>set players'. pid p' = pid p \<and>
                     expected_points p' = Some (spec_estimate feed_clubs p fixes))"
    by blast
  have "ep (pid (mk_raw 1 3 1 5 4 50 ChanceNull))
          = Some (spec_estimate feed_clubs (mk_raw 1 3 1 5 4 50 ChanceNull)
                    [\<lparr>opp_id = 2, diff = 2, home = True\<rparr>])"
    using f [rule_format, of "mk_raw 1 3 1 5 4 50 ChanceNull" "[\<lparr>opp_id = 2, diff = 2, home = True\<rparr>]"]
    by (simp add: feed_players_def feed_tf_def mk_raw_def)
  then have e1: "ep 1 = Some (486 / 100)"
    by (simp add: feed_estimates) (simp add: mk_raw_def)
  have "ep (pid (mk_raw 4 2 2 6 5 0 (ChanceNum 75)))
          = Some (spec_estimate feed_clubs (mk_raw 4 2 2 6 5 0 (ChanceNum 75))
                    [\<lparr>opp_id = 1, diff = 4, home = False\<rparr>])"
    using f [rule_format, of "mk_raw 4 2 2 6 5 0 (ChanceNum 75)" "[\<lparr>opp_id = 1, diff = 4, home = False\<rparr>]"]
    by (simp add: feed_players_def feed_tf_def mk_raw_def)
  then have e4: "ep 4 = Some (202 / 100)"
    by (simp add: feed_estimates) (simp add: mk_raw_def)
  show ?thesis using feed_facts feed_tf_run run e1 e4 by simp
qed

lemma feed_run: "\<exists>ep players'. calculate_expected_points feed_players feed_clubs feed_tf = Inr (ep, players')"
proof -
  have "case calculate_expected_points feed_players feed_clubs feed_tf of
          Inl e \<Rightarrow> False | Inr r \<Rightarrow> True"
    by code_simp
  then show ?thesis
    by (cases "calculate_expected_points feed_players feed_clubs feed_tf") auto
qed

theorem unavailable_players_excluded_witness:
  "distinct (map pid feed_players) \<and>
   mk_raw 2 3 2 5 4 50 (ChanceNum 0) \<in> set feed_players \<and>
   mk_raw 3 4 3 5 4 50 (ChanceNum 100) \<in> set feed_players \<and> feed_tf 3 = Some [] \<and>
   (\<exists>ep players'. calculate_expected_points feed_players feed_clubs feed_tf = Inr (ep, players') \<and>
      ep 2 = None \<and> ep 3 = None \<and>
      list_all (\<lambda>q. pid q \<noteq> 2 \<and> pid q \<noteq> 3) (avail_players ep players'))"
proof -
  from feed_run obtain ep players' where
    run: "calculate_expected_points feed_players feed_clubs feed_tf = Inr (ep, players')" by blast
  have m2: "mk_raw 2 3 2 5 4 50 (ChanceNum 0) \<in> set feed_players"
    and m3: "mk_raw 3 4 3 5 4 50 (ChanceNum 100) \<in> set feed_players"
    by (simp_all add: feed_players_def)
  have t3: "feed_tf 3 = Some []" by (simp add: feed_tf_def)
  have "ep 2 = None \<and> (\<forall>q\<in>set (avail_players ep players'). pid q \<noteq> 2)"
    using unavailable_players_excluded [OF feed_facts(1) run m2, where squad_solve = "toy_solve all_ones" and cs = "[]" and ft = 1
        and chip = None and lineup_solve = "toy_solve_list top_lineups"]
    by (simp add: mk_raw_def)
  moreover have "ep 3 = None \<and> (\<forall>q\<in>set (avail_players ep players'). pid q \<noteq> 3)"
    using unavailable_players_excluded [OF feed_facts(1) run m3, where squad_solve = "toy_solve all_ones" and cs = "[]" and ft = 1
        and chip = None and lineup_solve = "toy_solve_list top_lineups"] t3
    by (simp add: mk_raw_def)
  ultimately show ?thesis using feed_facts(1) m2 m3 t3 run by (auto simp: list_all_iff)
qed

lemma avail_players_ep: "\<forall>p\<in>set (avail_players ep players). ep (pid p) \<noteq> None"
  by (simp add: avail_players_def)

lemma squad_lp_Inr: "\<exists>prob. squad_lp players ep cs ft chip = Inr prob"
proof -
  let ?avail = "avail_players ep players"
  let ?csp = "current_squad_players ?avail cs"
  have k: "\<exists>ts. weighted Keep ep ?csp = Inr ts"
    using current_squad_players_subset [of ?avail cs] avail_players_ep [of ep players]
    by (intro weighted_Inr) blast
  have b: "\<exists>ts. weighted Buy ep (filter (\<lambda>p. p \<notin> set ?csp) ?avail) = Inr ts"
    using avail_players_ep [of ep players] by (intro weighted_Inr) simp
  have s: "\<exists>ts. weighted Select ep ?avail = Inr ts"
    using avail_players_ep [of ep players] by (intro weighted_Inr) simp
  from k b s show ?thesis
    by (auto simp: squad_lp_def squad_problem_def Let_def)
qed

section \<open>Failure of the squad optimisation\<close>

text \<open>
  Claim C7. \<^verbatim>\<open>optimize_squad\<close> always submits a problem. When the solver reports a
  status other than optimal, the result is the error \<^verbatim>\<open>ValueError("No optimal squad.")\<close>
  and no squad; when it reports an optimal status (and the available players carry their
  expected points, as they do after \<^verbatim>\<open>calculate_expected_points\<close>), a squad is
  returned.
\<close>

theorem squad_failure_is_hard_error:
  assumes "fields_ok ep (avail_players ep players)"
  shows "\<exists>prob. squad_lp players ep current_squad free_transfers chip = Inr prob \<and>
           (fst (solve prob) \<noteq> Optimal \<longrightarrow>
              optimize_squad solve players ep current_squad free_transfers chip
                = Inl (ValueError ''No optimal squad.'')) \<and>
           (fst (solve prob) = Optimal \<longrightarrow>
              (\<exists>selected total_cost squad_expected.
                 optimize_squad solve players ep current_squad free_transfers chip
                   = Inr (selected, total_cost, squad_expected)))"
proof -
  let ?avail = "avail_players ep players"
  let ?csp = "current_squad_players ?avail current_squad"
  from squad_lp_Inr obtain prob where
    p: "squad_lp players ep current_squad free_transfers chip = Inr prob" by blast
  have "set (squad_selection ?avail ?csp chip (snd (solve prob))) \<subseteq> set ?avail"
    using squad_selection_subset [of ?avail ?csp chip] current_squad_players_subset [of ?avail current_squad]
    by blast
  then have "\<forall>q\<in>set (squad_selection ?avail ?csp chip (snd (solve prob))). expected_points q \<noteq> None"
    using fields_okD [OF assms] by blast
  from sum_ep_Inr [OF this] p show ?thesis
    by (auto simp: optimize_squad_def squad_lp_def Let_def split: prod.splits)
qed

lemma squad15_avail_fields:
  "fields_ok (ep_of_fields squad15) (avail_players (ep_of_fields squad15) squad15)"
  by code_simp

lemma squad15_failed_run:
  "optimize_squad (toy_solve all_zeros) squad15 (ep_of_fields squad15) [] 1 None
     = Inl (ValueError ''No optimal squad.'')"
  by code_simp

theorem squad_failure_is_hard_error_witness:
  "fields_ok (ep_of_fields squad15) (avail_players (ep_of_fields squad15) squad15) \<and>
   optimize_squad (toy_solve all_zeros) squad15 (ep_of_fields squad15) [] 1 None
     = Inl (ValueError ''No optimal squad.'') \<and>
   optimize_squad (toy_solve all_ones) squad15 (ep_of_fields squad15) [] 1 None
     = Inr (squad15, 75, 75) \<and>
   (\<exists>prob. squad_lp squad15 (ep_of_fields squad15) [] 1 None = Inr prob \<and>
      (fst (toy_solve all_ones prob) \<noteq> Optimal \<longrightarrow>
         optimize_squad (toy_solve all_ones) squad15 (ep_of_fields squad15) [] 1 None
           = Inl (ValueError ''No optimal squad.'')) \<and>
      (fst (toy_solve all_ones prob) = Optimal \<longrightarrow>
         (\<exists>selected total_cost squad_expected.
            optimize_squad (toy_solve all_ones) squad15 (ep_of_fields squad15) [] 1 None
              = Inr (selected, total_cost, squad_expected))))"
  using squad_failure_is_hard_error [OF squad15_avail_fields, of "[]" 1 None "toy_solve all_ones"]
    squad15_avail_fields squad15_failed_run squad15_run
  by simp

end
